theory Spec2Isabelle
  imports Main "HOL-Library.Word" "HOL-Library.Sublist"
begin

section \<open>Strings of the runtime\<close>

text \<open>
  A JavaScript string is a finite sequence of 16-bit code units. Regular expressions
  without the \<open>u\<close> flag, \<open>trim\<close>, \<open>startsWith\<close> and \<open>includes\<close> all work on code
  units, so the model does too. \<open>ustr\<close> writes an ASCII literal of the source as code
  units; the two ASCII quote characters and the characters outside ASCII are written
  by their code.
\<close>

type_synonym code_unit = "16 word"
type_synonym jsstring = "code_unit list"

definition ustr :: "string \<Rightarrow> jsstring" where
  "ustr s = map of_char s"

definition dquote :: code_unit where
  "dquote = 0x22"

definition squote :: code_unit where
  "squote = 0x27"

text \<open>
  \<open>String.prototype.startsWith\<close> and \<open>String.prototype.includes\<close> as ECMAScript
  defines them (search position 0): the search string is compared with the substring
  of its own length at the start, respectively at each index \<open>0 .. len - searchLen\<close>
  (\<open>includes\<close> is a keyword of Isabelle, hence \<open>includes_js\<close>).
\<close>

definition startsWith :: "jsstring \<Rightarrow> jsstring \<Rightarrow> bool" where
  "startsWith s t = (length t \<le> length s \<and> take (length t) s = t)"

definition includes_js :: "jsstring \<Rightarrow> jsstring \<Rightarrow> bool" where
  "includes_js s t =
     (length t \<le> length s \<and>
      list_ex (\<lambda>i. take (length t) (drop i s) = t) [0 ..< Suc (length s - length t)])"

text \<open>
  \<open>String.prototype.trim\<close> removes leading and trailing code units that are WhiteSpace
  or LineTerminator in ECMAScript: TAB, LF, VT, FF, CR, SP, NBSP, U+1680, U+2000 to
  U+200A, U+2028, U+2029, U+202F, U+205F, U+3000 and U+FEFF.
\<close>

definition is_whitespace :: "code_unit \<Rightarrow> bool" where
  "is_whitespace c =
     (c = 0x09 \<or> c = 0x0A \<or> c = 0x0B \<or> c = 0x0C \<or> c = 0x0D \<or> c = 0x20 \<or> c = 0xA0 \<or>
      c = 0x1680 \<or> (0x2000 \<le> c \<and> c \<le> 0x200A) \<or> c = 0x2028 \<or> c = 0x2029 \<or>
      c = 0x202F \<or> c = 0x205F \<or> c = 0x3000 \<or> c = 0xFEFF)"

definition trim :: "jsstring \<Rightarrow> jsstring" where
  "trim s = rev (dropWhile is_whitespace (rev (dropWhile is_whitespace s)))"

text \<open>
  \<open>String.prototype.toLowerCase\<close> is the runtime's Unicode case mapping. The program
  only applies it; every definition below that lowercases takes the mapping as its
  first argument \<open>lc\<close>, and the theorems hold for every such mapping. On strings of
  ASCII characters the mapping sends \<open>A .. Z\<close> to \<open>a .. z\<close> and leaves the rest;
  \<open>toLowerCaseASCII\<close> is that restriction, used to evaluate concrete ASCII inputs.
\<close>

definition lowerASCII :: "code_unit \<Rightarrow> code_unit" where
  "lowerASCII c = (if 0x41 \<le> c \<and> c \<le> 0x5A then c + 0x20 else c)"

definition toLowerCaseASCII :: "jsstring \<Rightarrow> jsstring" where
  "toLowerCaseASCII s = map lowerASCII s"

section \<open>Text normalizer and quoted-string extractor\<close>

text \<open>
  \<^verbatim>\<open>normalizeText\<close> (bot.js, lines 33 to 39): three global replacements, then
  \<open>trim\<close>. The first two replace one code unit by one code unit, the third replaces
  an en dash or em dash by two hyphens.
\<close>

definition replaceSmartSingle :: "jsstring \<Rightarrow> jsstring" where
  "replaceSmartSingle s = map (\<lambda>c. if c = 0x2018 \<or> c = 0x2019 then squote else c) s"

definition replaceSmartDouble :: "jsstring \<Rightarrow> jsstring" where
  "replaceSmartDouble s = map (\<lambda>c. if c = 0x201C \<or> c = 0x201D then dquote else c) s"

definition replaceDashes :: "jsstring \<Rightarrow> jsstring" where
  "replaceDashes s = concat (map (\<lambda>c. if c = 0x2013 \<or> c = 0x2014 then [0x2D, 0x2D] else [c]) s)"

definition normalizeText :: "jsstring \<Rightarrow> jsstring" where
  "normalizeText text = trim (replaceDashes (replaceSmartDouble (replaceSmartSingle text)))"

text \<open>
  \<^verbatim>\<open>extractQuotedStrings\<close> (lines 42 to 46). The character class of the regular
  expression lists the double quote, the apostrophe, and the double quote twice more:
  as the file stands, its members are U+0022 and U+0027 only.

  \<open>matchAll\<close> with the global flag tries each start index from the left. A match at
  an index needs a quote there, then the longest run of non-quote code units, which
  must be non-empty and must be followed by a quote (the run stops only at a quote or
  at the end of the text, so no shorter run can succeed either). After a match the
  search resumes behind the closing quote; after a failure, at the next index.
  \<open>quoted_runs\<close> lists the captures \<open>m[1]\<close> in order.
\<close>

definition is_quote :: "code_unit \<Rightarrow> bool" where
  "is_quote c = (c = dquote \<or> c = squote)"

function quoted_runs :: "jsstring \<Rightarrow> jsstring list" where
  "quoted_runs [] = []"
| "quoted_runs (c # cs) =
     (if is_quote c \<and> takeWhile (\<lambda>x. \<not> is_quote x) cs \<noteq> [] \<and>
         dropWhile (\<lambda>x. \<not> is_quote x) cs \<noteq> []
      then takeWhile (\<lambda>x. \<not> is_quote x) cs #
           quoted_runs (tl (dropWhile (\<lambda>x. \<not> is_quote x) cs))
      else quoted_runs cs)"
  by pat_completeness auto
termination
proof (relation "measure length")
  show "wf (measure length)" by simp
next
  fix c :: code_unit and cs :: jsstring
  assume "is_quote c \<and> takeWhile (\<lambda>x. \<not> is_quote x) cs \<noteq> [] \<and>
    dropWhile (\<lambda>x. \<not> is_quote x) cs \<noteq> []"
  have "length (tl (dropWhile (\<lambda>x. \<not> is_quote x) cs)) \<le> length cs"
    using length_dropWhile_le [of "\<lambda>x. \<not> is_quote x" cs] by simp
  then show "(tl (dropWhile (\<lambda>x. \<not> is_quote x) cs), c # cs) \<in> measure length"
    by simp
next
  fix c :: code_unit and cs :: jsstring
  show "(cs, c # cs) \<in> measure length" by simp
qed

definition extractQuotedStrings :: "jsstring \<Rightarrow> jsstring list" where
  "extractQuotedStrings text = map normalizeText (quoted_runs text)"

section \<open>Trigger records and the collection\<close>

text \<open>
  The documents of the \<open>responses\<close> collection. \<open>type\<close> is one of the three strings
  the program writes; \<open>updatedAt\<close> is absent until the first edit. A date is the
  number of milliseconds \<open>new Date()\<close> reads from the clock; the clock is an input.
\<close>

datatype response_type = Text | Image | File

type_synonym date = nat

record document =
  trigger :: jsstring
  response :: jsstring
  type :: response_type
  createdAt :: date
  updatedAt :: "date option"

definition type_name :: "response_type \<Rightarrow> jsstring" where
  "type_name ty = (case ty of Text \<Rightarrow> ustr ''text'' | Image \<Rightarrow> ustr ''image'' | File \<Rightarrow> ustr ''file'')"

text \<open>
  The collection is held by the external document store. It is modelled as the list
  of its documents in natural (insertion) order, with the four driver calls the
  program makes, each filtered by \<open>{ trigger: t }\<close>: \<open>findOne\<close> yields the first
  document with that trigger, \<open>insertOne\<close> appends, \<open>deleteOne\<close> removes the first
  such document and reports \<open>deletedCount\<close>, \<open>updateOne\<close> applies the \<open>$set\<close> to the
  first such document. Store failures (connection loss) are not modelled.
\<close>

type_synonym collection = "document list"

definition findOne :: "collection \<Rightarrow> jsstring \<Rightarrow> document option" where
  "findOne coll t = List.find (\<lambda>doc. trigger doc = t) coll"

definition insertOne :: "collection \<Rightarrow> document \<Rightarrow> collection" where
  "insertOne coll doc = coll @ [doc]"

fun deleteOne :: "collection \<Rightarrow> jsstring \<Rightarrow> collection \<times> nat" where
  "deleteOne [] t = ([], 0)"
| "deleteOne (doc # docs) t =
     (if trigger doc = t then (docs, 1)
      else (doc # fst (deleteOne docs t), snd (deleteOne docs t)))"

fun updateOne :: "collection \<Rightarrow> jsstring \<Rightarrow> (document \<Rightarrow> document) \<Rightarrow> collection" where
  "updateOne [] t upd = []"
| "updateOne (doc # docs) t upd =
     (if trigger doc = t then upd doc # docs else doc # updateOne docs t upd)"

section \<open>Messages and the command executor\<close>

record attachment =
  url :: jsstring
  contentType :: "jsstring option"

record message =
  author_bot :: bool
  content :: jsstring
  attachments :: "attachment list"

text \<open>
  The errors the handler can catch: the three \<open>new Error(...)\<close> of the executor, and
  a rejected \<open>channel.send\<close>, which carries the message the chat library gave it.
\<close>

datatype error = DuplicateTrigger | TriggerNotFound | InvalidFormat | SendFailed jsstring

definition error_message :: "error \<Rightarrow> jsstring" where
  "error_message e =
     (case e of
        DuplicateTrigger \<Rightarrow> ustr ''Trigger already exists''
      | TriggerNotFound \<Rightarrow> ustr ''Trigger not found''
      | InvalidFormat \<Rightarrow> ustr ''Invalid format''
      | SendFailed m \<Rightarrow> m)"

text \<open>
  The block that chooses \<open>response\<close> and \<open>type\<close> stands twice in the source, word
  for word: in \<^verbatim>\<open>addResponse\<close> (lines 63 to 74) and in \<^verbatim>\<open>editResponse\<close>
  (lines 96 to 107). \<open>attachments.first()\<close> is the head of the attachments;
  \<open>contentType?.startsWith("image/")\<close> is false when there is no content type. Without
  an attachment the quoted strings are extracted from \<open>message.content\<close>, the text as
  it was received.
\<close>

definition responseAndType :: "message \<Rightarrow> error + jsstring \<times> response_type" where
  "responseAndType msg =
     (case attachments msg of
        att # _ \<Rightarrow>
          Inr (url att,
               if (case contentType att of None \<Rightarrow> False | Some ct \<Rightarrow> startsWith ct (ustr ''image/''))
               then Image else File)
      | [] \<Rightarrow>
          (let quoted = extractQuotedStrings (content msg)
           in if length quoted \<noteq> 2 then Inl InvalidFormat else Inr (quoted ! 1, Text)))"

text \<open>
  The three operations take the case mapping \<open>lc\<close>, the clock reading \<open>now\<close> where
  a date is written, and the collection; they return the collection afterwards and
  either the error thrown or the string returned. The arrow in the confirmations is
  U+2192.
\<close>

definition addResponse ::
  "(jsstring \<Rightarrow> jsstring) \<Rightarrow> date \<Rightarrow> collection \<Rightarrow> message \<Rightarrow> jsstring \<Rightarrow> collection \<times> (error + jsstring)" where
  "addResponse lc now coll msg trig =
     (case findOne coll (lc trig) of
        Some existing \<Rightarrow> (coll, Inl DuplicateTrigger)
      | None \<Rightarrow>
          (case responseAndType msg of
             Inl e \<Rightarrow> (coll, Inl e)
           | Inr (resp, ty) \<Rightarrow>
               (insertOne coll
                  \<lparr>trigger = lc trig, response = resp, type = ty, createdAt = now, updatedAt = None\<rparr>,
                Inr (ustr ''Added: '' @ [dquote] @ trig @ [dquote, 0x20, 0x2192, 0x20] @ type_name ty))))"

definition removeResponse ::
  "(jsstring \<Rightarrow> jsstring) \<Rightarrow> collection \<Rightarrow> jsstring \<Rightarrow> collection \<times> (error + jsstring)" where
  "removeResponse lc coll trig =
     (let result = deleteOne coll (lc trig)
      in if snd result = 0 then (fst result, Inl TriggerNotFound)
         else (fst result, Inr (ustr ''Removed: '' @ [dquote] @ trig @ [dquote])))"

definition editResponse ::
  "(jsstring \<Rightarrow> jsstring) \<Rightarrow> date \<Rightarrow> collection \<Rightarrow> message \<Rightarrow> jsstring \<Rightarrow> collection \<times> (error + jsstring)" where
  "editResponse lc now coll msg trig =
     (case findOne coll (lc trig) of
        None \<Rightarrow> (coll, Inl TriggerNotFound)
      | Some existing \<Rightarrow>
          (case responseAndType msg of
             Inl e \<Rightarrow> (coll, Inl e)
           | Inr (resp, ty) \<Rightarrow>
               (updateOne coll (lc trig)
                  (\<lambda>doc. doc\<lparr>response := resp, type := ty, updatedAt := Some now\<rparr>),
                Inr (ustr ''Updated: '' @ [dquote] @ trig @ [dquote, 0x20, 0x2192, 0x20] @ type_name ty))))"

text \<open>
  \<^verbatim>\<open>checkMessages\<close> (lines 117 to 121): the content is lowercased, the whole
  collection is read, and the documents whose trigger the content includes are kept.
\<close>

definition checkMessages :: "(jsstring \<Rightarrow> jsstring) \<Rightarrow> collection \<Rightarrow> jsstring \<Rightarrow> document list" where
  "checkMessages lc coll text =
     (let lowered = lc text in filter (\<lambda>doc. includes_js lowered (trigger doc)) coll)"

section \<open>The message handler\<close>

text \<open>
  What the handler asks the chat transport to send: a text, or a list of file
  references. A \<open>channel.send\<close> can be rejected; which calls are rejected is an input,
  \<open>fails\<close>, that tells for the k-th call on the channel (counted from 0) whether it
  is rejected and with which error message. The channel records every call in
  \<open>attempts\<close> and the accepted ones in \<open>delivered\<close>. Console output is not modelled.
\<close>

datatype outbound = TextMessage jsstring | FilesMessage "jsstring list"

record channel =
  attempts :: "outbound list"
  delivered :: "outbound list"

definition send :: "(nat \<Rightarrow> jsstring option) \<Rightarrow> channel \<Rightarrow> outbound \<Rightarrow> channel \<times> (error + unit)" where
  "send fails ch out =
     (case fails (length (attempts ch)) of
        None \<Rightarrow> (\<lparr>attempts = attempts ch @ [out], delivered = delivered ch @ [out]\<rparr>, Inr ())
      | Some m \<Rightarrow> (\<lparr>attempts = attempts ch @ [out], delivered = delivered ch\<rparr>, Inl (SendFailed m)))"

record world =
  responses :: collection
  chan :: channel

definition sendTo :: "(nat \<Rightarrow> jsstring option) \<Rightarrow> world \<Rightarrow> outbound \<Rightarrow> world \<times> (error + unit)" where
  "sendTo fails w out = (w\<lparr>chan := fst (send fails (chan w) out)\<rparr>, snd (send fails (chan w) out))"

text \<open>
  The chain of \<open>if (content.startsWith(...)) { ...; return; }\<close> of lines 130 to 168
  selects the first prefix, in this order, that the normalized content starts with;
  the code behind the chain (line 170 on) is reached when none does.
\<close>

datatype command = CmdHelp | CmdList | CmdAdd | CmdRemove | CmdEdit | PlainText

definition classify :: "jsstring \<Rightarrow> command" where
  "classify text =
     (if startsWith text (ustr ''--help'') then CmdHelp
      else if startsWith text (ustr ''--list'') then CmdList
      else if startsWith text (ustr ''--add'') then CmdAdd
      else if startsWith text (ustr ''--remove'') then CmdRemove
      else if startsWith text (ustr ''--edit'') then CmdEdit
      else PlainText)"

definition helpText :: jsstring where
  \<open>helpText =
     ustr ''Commands available:\<newline>**1. --add "message" "response"**Adds a new message and its response.\<newline>**2. --remove "message"**Removes a message and its response.\<newline>**3. --edit "message" "new_response"**Edits the response of an existing message.\<newline>**4. --list**List all registered responses.\<newline>**5. --help**Displays this help message.''\<close>

fun join :: "jsstring \<Rightarrow> jsstring list \<Rightarrow> jsstring" where
  "join sep [] = []"
| "join sep [x] = x"
| "join sep (x # y # ys) = x @ sep @ join sep (y # ys)"

definition listLine :: "document \<Rightarrow> jsstring" where
  "listLine doc =
     ustr ''- '' @ [dquote] @ trigger doc @ [dquote] @ ustr '' ('' @ type_name (type doc) @ ustr '')''"

definition listText :: "collection \<Rightarrow> jsstring" where
  "listText coll = ustr ''Responses:\<newline>'' @ join (ustr ''\<newline>'') (map listLine coll)"

text \<open>
  \<open>const trigger = extractQuotedStrings(content)[0]; if (!trigger) throw ...\<close>:
  the index 0 of an empty array is \<open>undefined\<close>, and both \<open>undefined\<close> and the empty
  string are falsy.
\<close>

definition firstQuoted :: "jsstring \<Rightarrow> error + jsstring" where
  "firstQuoted text =
     (case extractQuotedStrings text of
        [] \<Rightarrow> Inl InvalidFormat
      | trig # _ \<Rightarrow> if trig = [] then Inl InvalidFormat else Inr trig)"

text \<open>
  One round of the loop of lines 171 to 185: the \<open>switch\<close> on the type, one
  \<open>channel.send\<close>, and the \<open>catch\<close> around it, which only writes to the console.
\<close>

definition payload :: "document \<Rightarrow> outbound" where
  "payload match =
     (case type match of
        Image \<Rightarrow> FilesMessage [response match]
      | File \<Rightarrow> FilesMessage [response match]
      | Text \<Rightarrow> TextMessage (response match))"

definition sendMatch :: "(nat \<Rightarrow> jsstring option) \<Rightarrow> channel \<Rightarrow> document \<Rightarrow> channel" where
  "sendMatch fails ch match = fst (send fails ch (payload match))"

text \<open>
  The body of the outer \<open>try\<close>: the world afterwards, and the error that reaches the
  outer \<open>catch\<close>, if any.
\<close>

definition tryBody ::
  "(jsstring \<Rightarrow> jsstring) \<Rightarrow> (nat \<Rightarrow> jsstring option) \<Rightarrow> date \<Rightarrow> world \<Rightarrow> message \<Rightarrow> jsstring \<Rightarrow>
   world \<times> (error + unit)" where
  "tryBody lc fails now w msg text =
     (case classify text of
        CmdHelp \<Rightarrow> sendTo fails w (TextMessage helpText)
      | CmdList \<Rightarrow> sendTo fails w (TextMessage (listText (responses w)))
      | CmdAdd \<Rightarrow>
          (case firstQuoted text of
             Inl e \<Rightarrow> (w, Inl e)
           | Inr trig \<Rightarrow>
               (case addResponse lc now (responses w) msg trig of
                  (coll, Inl e) \<Rightarrow> (w\<lparr>responses := coll\<rparr>, Inl e)
                | (coll, Inr result) \<Rightarrow> sendTo fails (w\<lparr>responses := coll\<rparr>) (TextMessage result)))
      | CmdRemove \<Rightarrow>
          (case firstQuoted text of
             Inl e \<Rightarrow> (w, Inl e)
           | Inr trig \<Rightarrow>
               (case removeResponse lc (responses w) trig of
                  (coll, Inl e) \<Rightarrow> (w\<lparr>responses := coll\<rparr>, Inl e)
                | (coll, Inr result) \<Rightarrow> sendTo fails (w\<lparr>responses := coll\<rparr>) (TextMessage result)))
      | CmdEdit \<Rightarrow>
          (case firstQuoted text of
             Inl e \<Rightarrow> (w, Inl e)
           | Inr trig \<Rightarrow>
               (case editResponse lc now (responses w) msg trig of
                  (coll, Inl e) \<Rightarrow> (w\<lparr>responses := coll\<rparr>, Inl e)
                | (coll, Inr result) \<Rightarrow> sendTo fails (w\<lparr>responses := coll\<rparr>) (TextMessage result)))
      | PlainText \<Rightarrow>
          (w\<lparr>chan := foldl (sendMatch fails) (chan w) (checkMessages lc (responses w) text)\<rparr>, Inr ()))"

text \<open>
  The handler (lines 123 to 189): messages of bots are ignored; the content is
  normalized; an error of the body is reported by one more \<open>channel.send\<close>.
\<close>

definition messageCreate ::
  "(jsstring \<Rightarrow> jsstring) \<Rightarrow> (nat \<Rightarrow> jsstring option) \<Rightarrow> date \<Rightarrow> world \<Rightarrow> message \<Rightarrow> world" where
  "messageCreate lc fails now w msg =
     (if author_bot msg then w
      else
        (case tryBody lc fails now w msg (normalizeText (content msg)) of
           (w', Inr u) \<Rightarrow> w'
         | (w', Inl err) \<Rightarrow>
             fst (sendTo fails w' (TextMessage (ustr ''Error: '' @ error_message err)))))"

section \<open>Notions the properties use\<close>

text \<open>A text of ASCII characters only: every code unit is below 128.\<close>

definition isASCII :: "jsstring \<Rightarrow> bool" where
  "isASCII s = list_all (\<lambda>c. c < 0x80) s"

text \<open>
  The quoted strings of a text as the specification describes them (section 4.2):
  the scan of \<open>quoted_runs\<close>, where a delimiter on each side is a single or double
  quote character, plain or smart (U+2018, U+2019, U+201C, U+201D), each content
  normalized. This definition follows the specification, not the source; it says what
  "the source text contains exactly two quoted strings" means.
\<close>

definition is_smart_quote :: "code_unit \<Rightarrow> bool" where
  "is_smart_quote c = (c = 0x2018 \<or> c = 0x2019 \<or> c = 0x201C \<or> c = 0x201D)"

definition is_spec_quote :: "code_unit \<Rightarrow> bool" where
  "is_spec_quote c = (is_quote c \<or> is_smart_quote c)"

function spec_quoted_runs :: "jsstring \<Rightarrow> jsstring list" where
  "spec_quoted_runs [] = []"
| "spec_quoted_runs (c # cs) =
     (if is_spec_quote c \<and> takeWhile (\<lambda>x. \<not> is_spec_quote x) cs \<noteq> [] \<and>
         dropWhile (\<lambda>x. \<not> is_spec_quote x) cs \<noteq> []
      then takeWhile (\<lambda>x. \<not> is_spec_quote x) cs #
           spec_quoted_runs (tl (dropWhile (\<lambda>x. \<not> is_spec_quote x) cs))
      else spec_quoted_runs cs)"
  by pat_completeness auto
termination
proof (relation "measure length")
  show "wf (measure length)" by simp
next
  fix c :: code_unit and cs :: jsstring
  have "length (tl (dropWhile (\<lambda>x. \<not> is_spec_quote x) cs)) \<le> length cs"
    using length_dropWhile_le [of "\<lambda>x. \<not> is_spec_quote x" cs] by simp
  then show "(tl (dropWhile (\<lambda>x. \<not> is_spec_quote x) cs), c # cs) \<in> measure length"
    by simp
next
  fix c :: code_unit and cs :: jsstring
  show "(cs, c # cs) \<in> measure length" by simp
qed

definition specQuotedStrings :: "jsstring \<Rightarrow> jsstring list" where
  "specQuotedStrings s = map normalizeText (spec_quoted_runs s)"

text \<open>A text in which no smart quote character occurs.\<close>

definition noSmartQuotes :: "jsstring \<Rightarrow> bool" where
  "noSmartQuotes s = list_all (\<lambda>c. \<not> is_smart_quote c) s"

section \<open>Example data\<close>

text \<open>Concrete collections, messages and worlds on which the theorems are evaluated.\<close>

definition exampleDocs :: collection where
  "exampleDocs =
     [\<lparr>trigger = ustr ''hello'', response = ustr ''hi there'', type = Text,
        createdAt = 1, updatedAt = None\<rparr>,
      \<lparr>trigger = ustr ''bye'', response = ustr ''see you'', type = Text,
        createdAt = 2, updatedAt = None\<rparr>,
      \<lparr>trigger = ustr ''ell'', response = ustr ''http://x/y.png'', type = Image,
        createdAt = 3, updatedAt = None\<rparr>]"

definition emptyWorld :: world where
  "emptyWorld = \<lparr>responses = [], chan = \<lparr>attempts = [], delivered = []\<rparr>\<rparr>"

text \<open>
  The same add command typed with plain quotes and with smart quotes:
  \<open>--add "hi" "yo"\<close>, and the same text with U+201C and U+201D around each string.
\<close>

definition addPlainQuotes :: message where
  \<open>addPlainQuotes = \<lparr>author_bot = False, content = ustr ''--add "hi" "yo"'', attachments = []\<rparr>\<close>

definition addSmartQuotes :: message where
  "addSmartQuotes =
     \<lparr>author_bot = False,
      content = ustr ''--add '' @ [0x201C] @ ustr ''hi'' @ [0x201D, 0x20, 0x201C] @ ustr ''yo'' @ [0x201D],
      attachments = []\<rparr>"

text \<open>
  A world holding \<open>exampleDocs\<close> and a message of plain text; a world whose only
  trigger is \<open>help\<close> and the message \<open>--HELP\<close>.
\<close>

definition exampleWorld :: world where
  "exampleWorld = \<lparr>responses = exampleDocs, chan = \<lparr>attempts = [], delivered = []\<rparr>\<rparr>"

definition plainMessage :: message where
  "plainMessage = \<lparr>author_bot = False, content = ustr ''Well HELLO friend'', attachments = []\<rparr>"

definition helpWorld :: world where
  "helpWorld =
     \<lparr>responses = [\<lparr>trigger = ustr ''help'', response = ustr ''ask an admin'', type = Text,
                      createdAt = 1, updatedAt = None\<rparr>],
      chan = \<lparr>attempts = [], delivered = []\<rparr>\<rparr>"

definition upperHelp :: message where
  "upperHelp = \<lparr>author_bot = False, content = ustr ''--HELP'', attachments = []\<rparr>"

text \<open>An add command for a trigger that \<open>exampleDocs\<close> already holds in lowercase.\<close>

definition addHello :: message where
  \<open>addHello = \<lparr>author_bot = False, content = ustr ''--add "Hello" "hi again"'', attachments = []\<rparr>\<close>

text \<open>
  An add command with one quoted string only, and an edit command for the trigger
  \<open>hello\<close>; neither carries an attachment.
\<close>

definition addHelloOnly :: message where
  \<open>addHelloOnly = \<lparr>author_bot = False, content = ustr ''--add "hello"'', attachments = []\<rparr>\<close>

definition editHello :: message where
  \<open>editHello = \<lparr>author_bot = False, content = ustr ''--edit "hello" "good day"'', attachments = []\<rparr>\<close>

text \<open>A transport that rejects the first \<open>channel.send\<close> and accepts the later ones.\<close>

definition firstFails :: "nat \<Rightarrow> jsstring option" where
  "firstFails k = (if k = 0 then Some (ustr ''Missing Permissions'') else None)"

text \<open>An add command whose first quoted string is a single space.\<close>

definition addBlankTrigger :: message where
  \<open>addBlankTrigger = \<lparr>author_bot = False, content = ustr ''--add " " "yo"'', attachments = []\<rparr>\<close>

text \<open>
  A collection in which two documents have the trigger \<open>hello\<close>, as two concurrent
  adds can leave it; and an add command with three quoted strings, the second of them
  in smart quotes.
\<close>

definition duplicateDocs :: collection where
  "duplicateDocs =
     [\<lparr>trigger = ustr ''hello'', response = ustr ''hi there'', type = Text,
        createdAt = 1, updatedAt = None\<rparr>,
      \<lparr>trigger = ustr ''hello'', response = ustr ''good day'', type = Text,
        createdAt = 2, updatedAt = None\<rparr>]"

definition addThreeQuoted :: message where
  "addThreeQuoted =
     \<lparr>author_bot = False,
      content = ustr ''--add '' @ [dquote] @ ustr ''hi'' @ [dquote, 0x20, 0x201C] @ ustr ''yo'' @
                [0x201D, 0x20, dquote] @ ustr ''x'' @ [dquote],
      attachments = []\<rparr>"

section \<open>Response matcher\<close>

text \<open>
  \<open>includes_js\<close>, the index search of the runtime, holds exactly when the search
  string is a contiguous substring: the text splits into a part before, the search
  string, and a part after.
\<close>

lemma includes_js_imp_split:
  assumes "includes_js s t"
  shows "\<exists>ps ss. s = ps @ t @ ss"
proof -
  from assms have "list_ex (\<lambda>i. take (length t) (drop i s) = t) [0 ..< Suc (length s - length t)]"
    unfolding includes_js_def by (rule conjunct2)
  then obtain i where i: "take (length t) (drop i s) = t"
    unfolding list_ex_iff by (rule bexE)
  have "drop i s = take (length t) (drop i s) @ drop (length t) (drop i s)"
    by (rule append_take_drop_id [symmetric])
  with i have "drop i s = t @ drop (length t) (drop i s)" by simp
  with append_take_drop_id [of i s] have "s = take i s @ t @ drop (length t) (drop i s)"
    by metis
  then show ?thesis by blast
qed

lemma split_imp_includes_js:
  assumes "s = ps @ t @ ss"
  shows "includes_js s t"
proof -
  have "length ps < Suc (length s - length t)" using assms by simp
  moreover have "take (length t) (drop (length ps) s) = t" using assms by simp
  moreover have "length t \<le> length s" using assms by simp
  ultimately show ?thesis
    unfolding includes_js_def list_ex_iff by (metis atLeastLessThan_iff set_upt zero_le)
qed

lemma includes_js_iff: "includes_js s t \<longleftrightarrow> (\<exists>ps ss. s = ps @ t @ ss)"
  using includes_js_imp_split split_imp_includes_js by blast

text \<open>
  Claim C1. For every message text and every collection, \<open>checkMessages\<close> returns
  exactly the documents whose \<open>trigger\<close> field is a contiguous substring of the
  lowercased text: all of them, in the order of the collection, and the empty list
  when no trigger is a substring.
\<close>

theorem checkMessages_all_substring_matches:
  "checkMessages lc coll text = filter (\<lambda>doc. \<exists>ps ss. lc text = ps @ trigger doc @ ss) coll \<and>
   (\<forall>doc. doc \<in> set (checkMessages lc coll text) \<longleftrightarrow>
        doc \<in> set coll \<and> (\<exists>ps ss. lc text = ps @ trigger doc @ ss)) \<and>
   ((\<forall>doc \<in> set coll. \<not> (\<exists>ps ss. lc text = ps @ trigger doc @ ss)) \<longrightarrow>
        checkMessages lc coll text = [])"
  by (simp add: checkMessages_def includes_js_iff filter_empty_conv)

theorem checkMessages_witness:
  "checkMessages toLowerCaseASCII exampleDocs (ustr ''say nothing'') = [] \<and>
   checkMessages toLowerCaseASCII exampleDocs (ustr ''Well HELLO friend'') =
     [exampleDocs ! 0, exampleDocs ! 2]"
proof -
  have none: "\<forall>doc \<in> set exampleDocs.
      \<not> (\<exists>ps ss. toLowerCaseASCII (ustr ''say nothing'') = ps @ trigger doc @ ss)"
    unfolding includes_js_iff [symmetric] by code_simp
  have two: "filter (\<lambda>doc. \<exists>ps ss. toLowerCaseASCII (ustr ''Well HELLO friend'') = ps @ trigger doc @ ss)
      exampleDocs = [exampleDocs ! 0, exampleDocs ! 2]"
    unfolding includes_js_iff [symmetric] by code_simp
  from checkMessages_all_substring_matches [of toLowerCaseASCII exampleDocs "ustr ''say nothing''"] none
  have "checkMessages toLowerCaseASCII exampleDocs (ustr ''say nothing'') = []" by blast
  moreover from checkMessages_all_substring_matches
      [of toLowerCaseASCII exampleDocs "ustr ''Well HELLO friend''"] two
  have "checkMessages toLowerCaseASCII exampleDocs (ustr ''Well HELLO friend'') =
     [exampleDocs ! 0, exampleDocs ! 2]" by simp
  ultimately show ?thesis by simp
qed

section \<open>Text normalizer\<close>

text \<open>On ASCII text the three replacements find nothing to replace.\<close>

lemma replaceSmartSingle_ascii: "isASCII s \<Longrightarrow> replaceSmartSingle s = s"
  unfolding isASCII_def replaceSmartSingle_def list_all_iff
  by (intro map_idI) auto

lemma replaceSmartDouble_ascii: "isASCII s \<Longrightarrow> replaceSmartDouble s = s"
  unfolding isASCII_def replaceSmartDouble_def list_all_iff
  by (intro map_idI) auto

lemma replaceDashes_ascii: "isASCII s \<Longrightarrow> replaceDashes s = s"
  unfolding isASCII_def replaceDashes_def
  by (induction s) auto

lemma dropWhile_hd_id: "xs = [] \<or> \<not> P (hd xs) \<Longrightarrow> dropWhile P xs = xs"
  by (cases xs) auto

lemma trim_no_outer_whitespace:
  assumes "s = [] \<or> (\<not> is_whitespace (hd s) \<and> \<not> is_whitespace (last s))"
  shows "trim s = s"
proof -
  from assms have front: "dropWhile is_whitespace s = s"
    by (intro dropWhile_hd_id) blast
  from assms have "rev s = [] \<or> \<not> is_whitespace (hd (rev s))"
    by (auto simp: hd_rev)
  then have trail: "dropWhile is_whitespace (rev s) = rev s"
    by (rule dropWhile_hd_id)
  show ?thesis by (simp add: trim_def front trail)
qed

text \<open>
  Claim C2, as amended. For every text of ASCII characters only, \<open>normalizeText\<close>
  returns the text with its leading and trailing whitespace removed; it returns the
  text unchanged when the text is empty or neither begins nor ends with whitespace.
\<close>

theorem normalizeText_ascii_is_trim:
  assumes "isASCII text"
  shows "normalizeText text = trim text \<and>
    (text = [] \<or> (\<not> is_whitespace (hd text) \<and> \<not> is_whitespace (last text)) \<longrightarrow>
       normalizeText text = text)"
  using assms
  by (simp add: normalizeText_def replaceSmartSingle_ascii replaceSmartDouble_ascii
      replaceDashes_ascii trim_no_outer_whitespace)

theorem normalizeText_ascii_witness:
  "isASCII (ustr ''--add it'') \<and> normalizeText (ustr ''--add it'') = ustr ''--add it'' \<and>
   isASCII (ustr '' hi  '') \<and> normalizeText (ustr '' hi  '') = trim (ustr '' hi  '') \<and>
   trim (ustr '' hi  '') = ustr ''hi''"
proof -
  have a: "isASCII (ustr ''--add it'')" by (simp add: isASCII_def ustr_def)
  have b: "ustr ''--add it'' = [] \<or> (\<not> is_whitespace (hd (ustr ''--add it'')) \<and>
      \<not> is_whitespace (last (ustr ''--add it'')))"
    by (simp add: ustr_def is_whitespace_def)
  have c: "isASCII (ustr '' hi  '')" by (simp add: isASCII_def ustr_def)
  have d: "trim (ustr '' hi  '') = ustr ''hi''" by (simp add: trim_def ustr_def is_whitespace_def)
  from normalizeText_ascii_is_trim [OF a] b
  have "normalizeText (ustr ''--add it'') = ustr ''--add it''" by blast
  moreover from normalizeText_ascii_is_trim [OF c]
  have "normalizeText (ustr '' hi  '') = trim (ustr '' hi  '')" by blast
  ultimately show ?thesis using a c d by simp
qed

text \<open>
  Claim C2 as stated fails: the text \<open>" hi"\<close> is ASCII, and \<open>normalizeText\<close> returns
  \<open>"hi"\<close>, because of the \<open>trim\<close> at the end of the function.
\<close>

theorem normalizeText_ascii_not_identity:
  "isASCII (ustr '' hi'') \<and> normalizeText (ustr '' hi'') = ustr ''hi'' \<and>
   normalizeText (ustr '' hi'') \<noteq> ustr '' hi''"
  by (simp add: isASCII_def ustr_def normalizeText_def replaceSmartSingle_def replaceSmartDouble_def
      replaceDashes_def trim_def is_whitespace_def)

section \<open>Quoted-string extractor\<close>

text \<open>
  How the scan behaves on plain quotes: text without a quote yields nothing, text
  before the first quote is skipped, a quote followed by a non-empty quote-free run
  and a closing quote yields that run and the scan goes on behind the closing quote,
  and a quote with no quote after it yields nothing. Every run found is non-empty and
  free of quotes.
\<close>

lemma quoted_runs_no_quote: "\<forall>c \<in> set s. \<not> is_quote c \<Longrightarrow> quoted_runs s = []"
  by (induction s) auto

lemma quoted_runs_skip: "\<forall>c \<in> set pre. \<not> is_quote c \<Longrightarrow> quoted_runs (pre @ rest) = quoted_runs rest"
  by (induction pre) auto

lemma quoted_runs_match:
  assumes "is_quote q1" "is_quote q2" "run \<noteq> []" "\<forall>c \<in> set run. \<not> is_quote c"
  shows "quoted_runs (q1 # run @ q2 # rest) = run # quoted_runs rest"
proof -
  from assms have "takeWhile (\<lambda>x. \<not> is_quote x) (run @ q2 # rest) = run"
    by (simp add: takeWhile_append2)
  moreover from assms have "dropWhile (\<lambda>x. \<not> is_quote x) (run @ q2 # rest) = q2 # rest"
    by (simp add: dropWhile_append2)
  ultimately show ?thesis using assms by simp
qed

lemma quoted_runs_dangling:
  assumes "\<forall>c \<in> set run. \<not> is_quote c"
  shows "quoted_runs (q # run) = []"
proof -
  from assms have "dropWhile (\<lambda>x. \<not> is_quote x) run = []" by simp
  then show ?thesis using assms by (simp add: quoted_runs_no_quote)
qed

lemma quoted_runs_nonempty:
  "r \<in> set (quoted_runs s) \<Longrightarrow> r \<noteq> [] \<and> (\<forall>c \<in> set r. \<not> is_quote c)"
proof (induction s rule: quoted_runs.induct)
  case 1
  then show ?case by simp
next
  case (2 c cs)
  let ?run = "takeWhile (\<lambda>x. \<not> is_quote x) cs"
  let ?rest = "dropWhile (\<lambda>x. \<not> is_quote x) cs"
  show ?case
  proof (cases "is_quote c \<and> ?run \<noteq> [] \<and> ?rest \<noteq> []")
    case True
    then have "quoted_runs (c # cs) = ?run # quoted_runs (tl ?rest)"
      by (subst quoted_runs.simps) (rule if_P)
    with "2.prems" have "r = ?run \<or> r \<in> set (quoted_runs (tl ?rest))" by simp
    then show ?thesis
    proof
      assume "r = ?run"
      with True show ?thesis by (metis set_takeWhileD)
    next
      assume "r \<in> set (quoted_runs (tl ?rest))"
      with True "2.IH"(1) show ?thesis by blast
    qed
  next
    case False
    then have "quoted_runs (c # cs) = quoted_runs cs"
      by (subst quoted_runs.simps) (rule if_not_P)
    with "2.prems" have "r \<in> set (quoted_runs cs)" by simp
    with False "2.IH"(2) show ?thesis by blast
  qed
qed

lemma smart_run_not_extracted: "extractQuotedStrings ([0x201C] @ ustr ''hi'' @ [0x201D]) = []"
  by code_simp

lemma plain_run_extracted: "extractQuotedStrings ([dquote] @ ustr ''hi'' @ [dquote]) = [ustr ''hi'']"
  by code_simp

lemma smart_add_trigger_found: "firstQuoted (normalizeText (content addSmartQuotes)) = Inr (ustr ''hi'')"
  by code_simp

lemma smart_add_response_refused: "responseAndType addSmartQuotes = Inl InvalidFormat"
  by code_simp

lemma smart_add_stores_nothing:
  "responses (messageCreate toLowerCaseASCII (\<lambda>k. None) 0 emptyWorld addSmartQuotes) = []"
  by code_simp

lemma smart_add_reports_error:
  "attempts (chan (messageCreate toLowerCaseASCII (\<lambda>k. None) 0 emptyWorld addSmartQuotes)) =
     [TextMessage (ustr ''Error: Invalid format'')]"
  by code_simp

lemma plain_add_stores_record:
  "responses (messageCreate toLowerCaseASCII (\<lambda>k. None) 0 emptyWorld addPlainQuotes) =
     [\<lparr>trigger = ustr ''hi'', response = ustr ''yo'', type = Text, createdAt = 0, updatedAt = None\<rparr>]"
  by code_simp

text \<open>
  Claim C3. The claim takes smart quotes for delimiters, as the comment above
  \<^verbatim>\<open>extractQuotedStrings\<close> does ("handling both smart and regular quotes"). The
  regular expression does not: a string between U+201C and U+201D is not extracted,
  the same string between plain quotes is. The handler extracts the trigger from the
  normalized content, where smart quotes have become plain ones, but
  \<^verbatim>\<open>addResponse\<close> extracts from the content as received: the add command typed
  with smart quotes passes the trigger check and is then refused as "Invalid format",
  while the same command with plain quotes stores the record.
\<close>

theorem smart_quotes_are_not_delimiters:
  "extractQuotedStrings ([0x201C] @ ustr ''hi'' @ [0x201D]) = [] \<and>
   extractQuotedStrings ([dquote] @ ustr ''hi'' @ [dquote]) = [ustr ''hi''] \<and>
   firstQuoted (normalizeText (content addSmartQuotes)) = Inr (ustr ''hi'') \<and>
   responseAndType addSmartQuotes = Inl InvalidFormat \<and>
   responses (messageCreate toLowerCaseASCII (\<lambda>k. None) 0 emptyWorld addSmartQuotes) = [] \<and>
   attempts (chan (messageCreate toLowerCaseASCII (\<lambda>k. None) 0 emptyWorld addSmartQuotes)) =
     [TextMessage (ustr ''Error: Invalid format'')] \<and>
   responses (messageCreate toLowerCaseASCII (\<lambda>k. None) 0 emptyWorld addPlainQuotes) =
     [\<lparr>trigger = ustr ''hi'', response = ustr ''yo'', type = Text, createdAt = 0, updatedAt = None\<rparr>]"
  by (intro conjI smart_run_not_extracted plain_run_extracted smart_add_trigger_found
      smart_add_response_refused smart_add_stores_nothing smart_add_reports_error
      plain_add_stores_record)

section \<open>Command classification\<close>

text \<open>
  \<open>startsWith\<close> against a literal, one code unit at a time; no text starts with two
  of the five command prefixes.
\<close>

lemma startsWith_Nil: "startsWith s []"
  by (simp add: startsWith_def)

lemma startsWith_Cons: "startsWith s (c # t) \<longleftrightarrow> (\<exists>s'. s = c # s' \<and> startsWith s' t)"
  by (cases s) (auto simp: startsWith_def)

lemma startsWith_iff_append: "startsWith s t \<longleftrightarrow> (\<exists>rest. s = t @ rest)"
  unfolding startsWith_def
  by (metis append_eq_conv_conj append_take_drop_id length_append le_add1)

lemma prefixes_exclusive:
  "\<not> (startsWith s (ustr ''--help'') \<and> startsWith s (ustr ''--list''))"
  "\<not> (startsWith s (ustr ''--help'') \<and> startsWith s (ustr ''--add''))"
  "\<not> (startsWith s (ustr ''--help'') \<and> startsWith s (ustr ''--remove''))"
  "\<not> (startsWith s (ustr ''--help'') \<and> startsWith s (ustr ''--edit''))"
  "\<not> (startsWith s (ustr ''--list'') \<and> startsWith s (ustr ''--add''))"
  "\<not> (startsWith s (ustr ''--list'') \<and> startsWith s (ustr ''--remove''))"
  "\<not> (startsWith s (ustr ''--list'') \<and> startsWith s (ustr ''--edit''))"
  "\<not> (startsWith s (ustr ''--add'') \<and> startsWith s (ustr ''--remove''))"
  "\<not> (startsWith s (ustr ''--add'') \<and> startsWith s (ustr ''--edit''))"
  "\<not> (startsWith s (ustr ''--remove'') \<and> startsWith s (ustr ''--edit''))"
  by (auto simp: ustr_def startsWith_Cons)

text \<open>
  Claim C4, as amended. Classification is a literal, case-sensitive prefix match
  against the normalized text as it is (the text is not lowercased): each of the five
  commands is chosen exactly when the text starts with its prefix, whatever the order
  of the checks, since the prefixes exclude one another; a text that starts with none
  of them is plain text and goes to the trigger matcher, whose matches are sent; a
  text that starts with \<open>--add\<close> is never plain text.
\<close>

theorem classify_by_prefix_of_normalized_text:
  "(classify s = CmdHelp \<longleftrightarrow> startsWith s (ustr ''--help'')) \<and>
   (classify s = CmdList \<longleftrightarrow> startsWith s (ustr ''--list'')) \<and>
   (classify s = CmdAdd \<longleftrightarrow> startsWith s (ustr ''--add'')) \<and>
   (classify s = CmdRemove \<longleftrightarrow> startsWith s (ustr ''--remove'')) \<and>
   (classify s = CmdEdit \<longleftrightarrow> startsWith s (ustr ''--edit'')) \<and>
   (classify s = PlainText \<longleftrightarrow>
      \<not> startsWith s (ustr ''--help'') \<and> \<not> startsWith s (ustr ''--list'') \<and>
      \<not> startsWith s (ustr ''--add'') \<and> \<not> startsWith s (ustr ''--remove'') \<and>
      \<not> startsWith s (ustr ''--edit'')) \<and>
   (classify s = PlainText \<longrightarrow>
      tryBody lc fails now w msg s =
        (w\<lparr>chan := foldl (sendMatch fails) (chan w) (checkMessages lc (responses w) s)\<rparr>, Inr ())) \<and>
   (startsWith s (ustr ''--add'') \<longrightarrow> classify s \<noteq> PlainText)"
proof -
  have cases_of: "(classify s = CmdHelp \<longleftrightarrow> startsWith s (ustr ''--help'')) \<and>
   (classify s = CmdList \<longleftrightarrow> startsWith s (ustr ''--list'')) \<and>
   (classify s = CmdAdd \<longleftrightarrow> startsWith s (ustr ''--add'')) \<and>
   (classify s = CmdRemove \<longleftrightarrow> startsWith s (ustr ''--remove'')) \<and>
   (classify s = CmdEdit \<longleftrightarrow> startsWith s (ustr ''--edit'')) \<and>
   (classify s = PlainText \<longleftrightarrow>
      \<not> startsWith s (ustr ''--help'') \<and> \<not> startsWith s (ustr ''--list'') \<and>
      \<not> startsWith s (ustr ''--add'') \<and> \<not> startsWith s (ustr ''--remove'') \<and>
      \<not> startsWith s (ustr ''--edit''))"
    using prefixes_exclusive [of s] unfolding classify_def by auto
  have plain: "classify s = PlainText \<longrightarrow>
      tryBody lc fails now w msg s =
        (w\<lparr>chan := foldl (sendMatch fails) (chan w) (checkMessages lc (responses w) s)\<rparr>, Inr ())"
    by (simp add: tryBody_def)
  have add: "startsWith s (ustr ''--add'') \<longrightarrow> classify s \<noteq> PlainText"
    using cases_of by simp
  from cases_of plain add show ?thesis by blast
qed

lemma add_prefix_example: "startsWith (ustr ''--add x'') (ustr ''--add'')"
  by code_simp

lemma plain_example_no_prefix:
  "\<not> startsWith (normalizeText (content plainMessage)) (ustr ''--help'') \<and>
   \<not> startsWith (normalizeText (content plainMessage)) (ustr ''--list'') \<and>
   \<not> startsWith (normalizeText (content plainMessage)) (ustr ''--add'') \<and>
   \<not> startsWith (normalizeText (content plainMessage)) (ustr ''--remove'') \<and>
   \<not> startsWith (normalizeText (content plainMessage)) (ustr ''--edit'')"
  by code_simp

lemma plain_example_matches:
  "attempts (chan (exampleWorld\<lparr>chan := foldl (sendMatch (\<lambda>k. None)) (chan exampleWorld)
      (checkMessages toLowerCaseASCII (responses exampleWorld) (normalizeText (content plainMessage)))\<rparr>)) =
   [TextMessage (ustr ''hi there''), FilesMessage [ustr ''http://x/y.png'']]"
  by code_simp

theorem classify_witness:
  "classify (ustr ''--add x'') = CmdAdd \<and> classify (ustr ''--add x'') \<noteq> PlainText \<and>
   classify (normalizeText (content plainMessage)) = PlainText \<and>
   attempts (chan (fst (tryBody toLowerCaseASCII (\<lambda>k. None) 0 exampleWorld plainMessage
      (normalizeText (content plainMessage))))) =
     [TextMessage (ustr ''hi there''), FilesMessage [ustr ''http://x/y.png'']]"
proof -
  note a = classify_by_prefix_of_normalized_text [of "ustr ''--add x''"]
  note p = classify_by_prefix_of_normalized_text
      [of "normalizeText (content plainMessage)" toLowerCaseASCII "\<lambda>k. None" 0 exampleWorld plainMessage]
  from a add_prefix_example have 1: "classify (ustr ''--add x'') = CmdAdd" by blast
  from a add_prefix_example have 2: "classify (ustr ''--add x'') \<noteq> PlainText" by blast
  from p plain_example_no_prefix have 3: "classify (normalizeText (content plainMessage)) = PlainText"
    by blast
  with p have "tryBody toLowerCaseASCII (\<lambda>k. None) 0 exampleWorld plainMessage
      (normalizeText (content plainMessage)) =
     (exampleWorld\<lparr>chan := foldl (sendMatch (\<lambda>k. None)) (chan exampleWorld)
        (checkMessages toLowerCaseASCII (responses exampleWorld) (normalizeText (content plainMessage)))\<rparr>,
      Inr ())" by blast
  with plain_example_matches have 4: "attempts (chan (fst (tryBody toLowerCaseASCII (\<lambda>k. None) 0
      exampleWorld plainMessage (normalizeText (content plainMessage))))) =
     [TextMessage (ustr ''hi there''), FilesMessage [ustr ''http://x/y.png'']]" by simp
  from 1 2 3 4 show ?thesis by blast
qed

lemma upper_help_plain: "classify (normalizeText (content upperHelp)) = PlainText"
  by code_simp

lemma upper_help_lowered: "classify (toLowerCaseASCII (normalizeText (content upperHelp))) = CmdHelp"
  by code_simp

lemma upper_help_reply:
  "attempts (chan (messageCreate toLowerCaseASCII (\<lambda>k. None) 0 helpWorld upperHelp)) =
     [TextMessage (ustr ''ask an admin'')]"
  by code_simp

text \<open>
  Claim C4 as stated fails: the lowercased form of \<open>--HELP\<close> starts with \<open>--help\<close>,
  but the handler tests the normalized text, which does not; the message is treated
  as plain text and answered with the response of the trigger \<open>help\<close>.
\<close>

theorem classify_is_case_sensitive:
  "classify (normalizeText (content upperHelp)) = PlainText \<and>
   classify (toLowerCaseASCII (normalizeText (content upperHelp))) = CmdHelp \<and>
   attempts (chan (messageCreate toLowerCaseASCII (\<lambda>k. None) 0 helpWorld upperHelp)) =
     [TextMessage (ustr ''ask an admin'')]"
  by (intro conjI upper_help_plain upper_help_lowered upper_help_reply)

section \<open>The collection\<close>

text \<open>
  What the driver calls do: \<open>findOne\<close> finds a document exactly when some document
  has the trigger; the first document with the trigger is the one found, deleted or
  updated; without such a document \<open>deleteOne\<close> deletes nothing and counts 0.
\<close>

lemma findOne_None_iff: "findOne coll t = None \<longleftrightarrow> (\<forall>doc \<in> set coll. trigger doc \<noteq> t)"
  by (auto simp: findOne_def find_None_iff)

lemma findOne_Some_iff: "(\<exists>doc. findOne coll t = Some doc) \<longleftrightarrow> (\<exists>doc \<in> set coll. trigger doc = t)"
  using findOne_None_iff [of coll t] by (cases "findOne coll t") auto

lemma first_occurrence:
  assumes "\<exists>doc \<in> set coll. trigger doc = t"
  shows "\<exists>pre doc post. coll = pre @ doc # post \<and> trigger doc = t \<and> (\<forall>x \<in> set pre. trigger x \<noteq> t)"
proof -
  from assms have "\<exists>x \<in> set coll. (\<lambda>doc. trigger doc = t) x" by simp
  then obtain pre doc post where "coll = pre @ doc # post" "trigger doc = t"
      "\<forall>x \<in> set pre. \<not> trigger x = t"
    by (auto dest!: split_list_first_prop)
  then show ?thesis by blast
qed

lemma findOne_first:
  "\<forall>x \<in> set pre. trigger x \<noteq> t \<Longrightarrow> trigger doc = t \<Longrightarrow> findOne (pre @ doc # post) t = Some doc"
  by (induction pre) (auto simp: findOne_def)

lemma deleteOne_first:
  "\<forall>x \<in> set pre. trigger x \<noteq> t \<Longrightarrow> trigger doc = t \<Longrightarrow> deleteOne (pre @ doc # post) t = (pre @ post, 1)"
  by (induction pre) auto

lemma deleteOne_absent: "\<forall>doc \<in> set coll. trigger doc \<noteq> t \<Longrightarrow> deleteOne coll t = (coll, 0)"
  by (induction coll) auto

lemma updateOne_first:
  "\<forall>x \<in> set pre. trigger x \<noteq> t \<Longrightarrow> trigger doc = t \<Longrightarrow>
     updateOne (pre @ doc # post) t upd = pre @ upd doc # post"
  by (induction pre) auto

section \<open>Add\<close>

lemma addResponse_duplicate_iff:
  "snd (addResponse lc now coll msg trig) = Inl DuplicateTrigger \<longleftrightarrow>
     (\<exists>doc \<in> set coll. trigger doc = lc trig)"
proof (cases "findOne coll (lc trig)")
  case None
  then have "\<not> (\<exists>doc \<in> set coll. trigger doc = lc trig)" by (simp add: findOne_None_iff)
  moreover from None have "snd (addResponse lc now coll msg trig) \<noteq> Inl DuplicateTrigger"
    by (auto simp: addResponse_def responseAndType_def Let_def split: sum.splits list.splits)
  ultimately show ?thesis by simp
next
  case (Some doc)
  then have "\<exists>doc \<in> set coll. trigger doc = lc trig" using findOne_Some_iff by blast
  moreover from Some have "snd (addResponse lc now coll msg trig) = Inl DuplicateTrigger"
    by (simp add: addResponse_def)
  ultimately show ?thesis by simp
qed

lemma addResponse_failure_keeps_store:
  "snd (addResponse lc now coll msg trig) = Inl e \<Longrightarrow> fst (addResponse lc now coll msg trig) = coll"
  by (auto simp: addResponse_def split: option.splits sum.splits)

lemma addResponse_success:
  assumes "addResponse lc now coll msg trig = (coll', Inr r)"
  shows "\<exists>resp ty. responseAndType msg = Inr (resp, ty) \<and> findOne coll (lc trig) = None \<and>
    coll' = coll @ [\<lparr>trigger = lc trig, response = resp, type = ty, createdAt = now, updatedAt = None\<rparr>]"
  using assms by (auto simp: addResponse_def insertOne_def split: option.splits sum.splits)

lemma addResponse_second_time:
  assumes "addResponse lc now coll msg trig = (coll', Inr r)" and "lc trig' = lc trig"
  shows "addResponse lc now' coll' msg' trig' = (coll', Inl DuplicateTrigger)"
proof -
  from addResponse_success [OF assms(1)] obtain doc where "coll' = coll @ [doc]" "trigger doc = lc trig"
    by auto
  with assms(2) have "\<exists>doc \<in> set coll'. trigger doc = lc trig'" by simp
  then obtain d where "findOne coll' (lc trig') = Some d" using findOne_Some_iff by blast
  then show ?thesis by (simp add: addResponse_def)
qed

text \<open>
  Claim C5. \<open>addResponse\<close> fails with \<open>DuplicateTrigger\<close> exactly when the collection
  holds a document whose trigger is the lowercased trigger; on that failure the
  collection is returned unchanged; and after a successful add, any add of a trigger
  with the same lowercase form fails with \<open>DuplicateTrigger\<close>, whatever the message
  and the time.
\<close>

theorem add_duplicate_trigger:
  "(snd (addResponse lc now coll msg trig) = Inl DuplicateTrigger \<longleftrightarrow>
      (\<exists>doc \<in> set coll. trigger doc = lc trig)) \<and>
   (snd (addResponse lc now coll msg trig) = Inl DuplicateTrigger \<longrightarrow>
      fst (addResponse lc now coll msg trig) = coll) \<and>
   (\<forall>coll' r now' msg' trig'.
      addResponse lc now coll msg trig = (coll', Inr r) \<and> lc trig' = lc trig \<longrightarrow>
      addResponse lc now' coll' msg' trig' = (coll', Inl DuplicateTrigger))"
  using addResponse_duplicate_iff [of lc now coll msg trig]
    addResponse_failure_keeps_store [of lc now coll msg trig DuplicateTrigger]
    addResponse_second_time [of lc now coll msg trig]
  by blast

lemma add_hello_to_examples_fails:
  "\<exists>doc \<in> set exampleDocs. trigger doc = toLowerCaseASCII (ustr ''Hello'')"
  by code_simp

lemma add_hi_succeeds:
  "addResponse toLowerCaseASCII 5 [] addPlainQuotes (ustr ''hi'') =
     ([\<lparr>trigger = ustr ''hi'', response = ustr ''yo'', type = Text, createdAt = 5, updatedAt = None\<rparr>],
      Inr (ustr ''Added: '' @ [dquote] @ ustr ''hi'' @ [dquote, 0x20, 0x2192, 0x20] @ ustr ''text''))"
  by code_simp

lemma lower_HI: "toLowerCaseASCII (ustr ''HI'') = toLowerCaseASCII (ustr ''hi'')"
  by code_simp

theorem add_duplicate_trigger_witness:
  "addResponse toLowerCaseASCII 9 exampleDocs addHello (ustr ''Hello'') = (exampleDocs, Inl DuplicateTrigger) \<and>
   addResponse toLowerCaseASCII 6
     [\<lparr>trigger = ustr ''hi'', response = ustr ''yo'', type = Text, createdAt = 5, updatedAt = None\<rparr>]
     addPlainQuotes (ustr ''HI'') =
     ([\<lparr>trigger = ustr ''hi'', response = ustr ''yo'', type = Text, createdAt = 5, updatedAt = None\<rparr>],
      Inl DuplicateTrigger)"
proof -
  note t1 = add_duplicate_trigger [of toLowerCaseASCII 9 exampleDocs addHello "ustr ''Hello''"]
  from t1 add_hello_to_examples_fails
  have "snd (addResponse toLowerCaseASCII 9 exampleDocs addHello (ustr ''Hello'')) = Inl DuplicateTrigger"
    and "fst (addResponse toLowerCaseASCII 9 exampleDocs addHello (ustr ''Hello'')) = exampleDocs"
    by blast+
  then have 1: "addResponse toLowerCaseASCII 9 exampleDocs addHello (ustr ''Hello'') =
      (exampleDocs, Inl DuplicateTrigger)"
    by (simp add: prod_eq_iff)
  note t2 = add_duplicate_trigger [of toLowerCaseASCII 5 "[]" addPlainQuotes "ustr ''hi''"]
  from t2 add_hi_succeeds lower_HI
  have 2: "addResponse toLowerCaseASCII 6
     [\<lparr>trigger = ustr ''hi'', response = ustr ''yo'', type = Text, createdAt = 5, updatedAt = None\<rparr>]
     addPlainQuotes (ustr ''HI'') =
     ([\<lparr>trigger = ustr ''hi'', response = ustr ''yo'', type = Text, createdAt = 5, updatedAt = None\<rparr>],
      Inl DuplicateTrigger)"
    by blast
  from 1 2 show ?thesis by (rule conjI)
qed

section \<open>Text responses of add and edit\<close>

lemma responseAndType_text:
  assumes "attachments msg = []"
  shows "responseAndType msg =
    (if length (extractQuotedStrings (content msg)) \<noteq> 2 then Inl InvalidFormat
     else Inr (extractQuotedStrings (content msg) ! 1, Text))"
  using assms by (simp add: responseAndType_def Let_def)

lemma editResponse_success:
  assumes "editResponse lc now coll msg trig = (coll', Inr r)"
  shows "\<exists>pre doc post resp ty. coll = pre @ doc # post \<and> trigger doc = lc trig \<and>
    (\<forall>x \<in> set pre. trigger x \<noteq> lc trig) \<and> responseAndType msg = Inr (resp, ty) \<and>
    coll' = pre @ doc\<lparr>response := resp, type := ty, updatedAt := Some now\<rparr> # post"
proof -
  from assms obtain existing where ex: "findOne coll (lc trig) = Some existing"
    by (cases "findOne coll (lc trig)") (auto simp: editResponse_def)
  with assms obtain resp ty where rt: "responseAndType msg = Inr (resp, ty)"
    and c': "coll' = updateOne coll (lc trig) (\<lambda>doc. doc\<lparr>response := resp, type := ty, updatedAt := Some now\<rparr>)"
    by (cases "responseAndType msg") (auto simp: editResponse_def)
  from ex have "\<exists>doc \<in> set coll. trigger doc = lc trig" using findOne_Some_iff by blast
  from first_occurrence [OF this] obtain pre doc post where
    split: "coll = pre @ doc # post" "trigger doc = lc trig" "\<forall>x \<in> set pre. trigger x \<noteq> lc trig"
    by blast
  from split c' have "coll' = pre @ doc\<lparr>response := resp, type := ty, updatedAt := Some now\<rparr> # post"
    by (simp add: updateOne_first)
  with split rt show ?thesis by blast
qed

lemma addResponse_no_duplicate:
  assumes "\<not> (\<exists>doc \<in> set coll. trigger doc = lc trig)"
  shows "addResponse lc now coll msg trig =
    (case responseAndType msg of
       Inl e \<Rightarrow> (coll, Inl e)
     | Inr (resp, ty) \<Rightarrow>
         (coll @ [\<lparr>trigger = lc trig, response = resp, type = ty, createdAt = now, updatedAt = None\<rparr>],
          Inr (ustr ''Added: '' @ [dquote] @ trig @ [dquote, 0x20, 0x2192, 0x20] @ type_name ty)))"
proof -
  from assms have "findOne coll (lc trig) = None" by (simp add: findOne_None_iff)
  then show ?thesis by (simp add: addResponse_def insertOne_def split: sum.splits)
qed

lemma editResponse_found_bad_format:
  assumes "\<exists>doc \<in> set coll. trigger doc = lc trig" and "responseAndType msg = Inl e"
  shows "editResponse lc now coll msg trig = (coll, Inl e)"
proof -
  from assms(1) obtain d where "findOne coll (lc trig) = Some d" using findOne_Some_iff by blast
  with assms(2) show ?thesis by (simp add: editResponse_def)
qed

text \<open>
  Without an attachment and in terms of what \<open>extractQuotedStrings\<close> returns on
  \<open>message.content\<close>: add and edit fail with \<open>InvalidFormat\<close> when the existence check
  has passed and the extractor does not return exactly two strings; when they succeed
  it returned two, and the second is the response written, with type \<open>text\<close>.
\<close>

lemma text_response_by_extractor:
  assumes "attachments msg = []"
  shows
   "(\<not> (\<exists>doc \<in> set coll. trigger doc = lc trig) \<and> length (extractQuotedStrings (content msg)) \<noteq> 2 \<longrightarrow>
       addResponse lc now coll msg trig = (coll, Inl InvalidFormat)) \<and>
    ((\<exists>doc \<in> set coll. trigger doc = lc trig) \<and> length (extractQuotedStrings (content msg)) \<noteq> 2 \<longrightarrow>
       editResponse lc now coll msg trig = (coll, Inl InvalidFormat)) \<and>
    (\<forall>coll' r. addResponse lc now coll msg trig = (coll', Inr r) \<longrightarrow>
       length (extractQuotedStrings (content msg)) = 2 \<and>
       coll' = coll @ [\<lparr>trigger = lc trig, response = extractQuotedStrings (content msg) ! 1,
                        type = Text, createdAt = now, updatedAt = None\<rparr>]) \<and>
    (\<forall>coll' r. editResponse lc now coll msg trig = (coll', Inr r) \<longrightarrow>
       length (extractQuotedStrings (content msg)) = 2 \<and>
       (\<exists>pre doc post. coll = pre @ doc # post \<and> trigger doc = lc trig \<and>
          (\<forall>x \<in> set pre. trigger x \<noteq> lc trig) \<and>
          coll' = pre @ doc\<lparr>response := extractQuotedStrings (content msg) ! 1, type := Text,
                               updatedAt := Some now\<rparr> # post))"
proof (intro conjI allI impI)
  assume "\<not> (\<exists>doc \<in> set coll. trigger doc = lc trig) \<and> length (extractQuotedStrings (content msg)) \<noteq> 2"
  then show "addResponse lc now coll msg trig = (coll, Inl InvalidFormat)"
    using assms by (simp add: addResponse_no_duplicate responseAndType_text)
next
  assume "(\<exists>doc \<in> set coll. trigger doc = lc trig) \<and> length (extractQuotedStrings (content msg)) \<noteq> 2"
  then show "editResponse lc now coll msg trig = (coll, Inl InvalidFormat)"
    using assms by (intro editResponse_found_bad_format) (simp_all add: responseAndType_text)
next
  fix coll' r
  assume ok: "addResponse lc now coll msg trig = (coll', Inr r)"
  from addResponse_success [OF ok] obtain resp ty where
    rt: "responseAndType msg = Inr (resp, ty)" and
    c': "coll' = coll @ [\<lparr>trigger = lc trig, response = resp, type = ty, createdAt = now, updatedAt = None\<rparr>]"
    by blast
  from rt assms have two: "length (extractQuotedStrings (content msg)) = 2"
    and "resp = extractQuotedStrings (content msg) ! 1" and "ty = Text"
    by (auto simp: responseAndType_text split: if_splits)
  with c' show "length (extractQuotedStrings (content msg)) = 2"
    and "coll' = coll @ [\<lparr>trigger = lc trig, response = extractQuotedStrings (content msg) ! 1,
                        type = Text, createdAt = now, updatedAt = None\<rparr>]"
    by simp_all
next
  fix coll' r
  assume ok: "editResponse lc now coll msg trig = (coll', Inr r)"
  from editResponse_success [OF ok] obtain pre doc post resp ty where
    split: "coll = pre @ doc # post" "trigger doc = lc trig" "\<forall>x \<in> set pre. trigger x \<noteq> lc trig" and
    rt: "responseAndType msg = Inr (resp, ty)" and
    c': "coll' = pre @ doc\<lparr>response := resp, type := ty, updatedAt := Some now\<rparr> # post"
    by blast
  from rt assms have two: "length (extractQuotedStrings (content msg)) = 2"
    and "resp = extractQuotedStrings (content msg) ! 1" and "ty = Text"
    by (auto simp: responseAndType_text split: if_splits)
  with c' split show "length (extractQuotedStrings (content msg)) = 2"
    and "\<exists>pre doc post. coll = pre @ doc # post \<and> trigger doc = lc trig \<and>
          (\<forall>x \<in> set pre. trigger x \<noteq> lc trig) \<and>
          coll' = pre @ doc\<lparr>response := extractQuotedStrings (content msg) ! 1, type := Text,
                               updatedAt := Some now\<rparr> # post"
    by blast+
qed

lemma hello_only_no_attachment: "attachments addHelloOnly = []"
  by (simp add: addHelloOnly_def)

lemma hello_in_examples: "\<exists>doc \<in> set exampleDocs. trigger doc = toLowerCaseASCII (ustr ''hello'')"
  by code_simp

lemma plain_quotes_no_attachment: "attachments addPlainQuotes = []"
  by (simp add: addPlainQuotes_def)

lemma lower_hi: "toLowerCaseASCII (ustr ''hi'') = ustr ''hi''"
  by code_simp

text \<open>
  On a text without smart quotes the quoted strings of the specification are the
  strings the extractor returns.
\<close>

lemma spec_quoted_runs_plain:
  "\<forall>c \<in> set s. \<not> is_smart_quote c \<Longrightarrow> spec_quoted_runs s = quoted_runs s"
proof (induction s rule: quoted_runs.induct)
  case 1
  then show ?case by simp
next
  case (2 c cs)
  let ?run = "takeWhile (\<lambda>x. \<not> is_quote x) cs"
  let ?rest = "dropWhile (\<lambda>x. \<not> is_quote x) cs"
  from "2.prems" have c: "is_spec_quote c = is_quote c"
    and cs: "\<forall>x \<in> set cs. \<not> is_smart_quote x"
    by (simp_all add: is_spec_quote_def)
  from cs have tw: "takeWhile (\<lambda>x. \<not> is_spec_quote x) cs = ?run"
    by (intro takeWhile_cong) (simp_all add: is_spec_quote_def)
  from cs have dw: "dropWhile (\<lambda>x. \<not> is_spec_quote x) cs = ?rest"
    by (intro dropWhile_cong) (simp_all add: is_spec_quote_def)
  have sub: "set (tl ?rest) \<subseteq> set cs"
    by (metis list.set_sel(2) set_dropWhileD subsetI tl_Nil)
  show ?case
  proof (cases "is_quote c \<and> ?run \<noteq> [] \<and> ?rest \<noteq> []")
    case True
    then have q: "quoted_runs (c # cs) = ?run # quoted_runs (tl ?rest)"
      by (subst quoted_runs.simps) (rule if_P)
    from True c tw dw have "is_spec_quote c \<and> takeWhile (\<lambda>x. \<not> is_spec_quote x) cs \<noteq> [] \<and>
        dropWhile (\<lambda>x. \<not> is_spec_quote x) cs \<noteq> []" by simp
    then have "spec_quoted_runs (c # cs) =
        takeWhile (\<lambda>x. \<not> is_spec_quote x) cs #
        spec_quoted_runs (tl (dropWhile (\<lambda>x. \<not> is_spec_quote x) cs))"
      by (subst spec_quoted_runs.simps) (rule if_P)
    then have s: "spec_quoted_runs (c # cs) = ?run # spec_quoted_runs (tl ?rest)"
      by (simp only: tw dw)
    from cs sub have "\<forall>x \<in> set (tl ?rest). \<not> is_smart_quote x" by blast
    with True "2.IH"(1) have "spec_quoted_runs (tl ?rest) = quoted_runs (tl ?rest)" by blast
    with q s show ?thesis by simp
  next
    case False
    then have q: "quoted_runs (c # cs) = quoted_runs cs"
      by (subst quoted_runs.simps) (rule if_not_P)
    from False c tw dw have "\<not> (is_spec_quote c \<and> takeWhile (\<lambda>x. \<not> is_spec_quote x) cs \<noteq> [] \<and>
        dropWhile (\<lambda>x. \<not> is_spec_quote x) cs \<noteq> [])" by simp
    then have s: "spec_quoted_runs (c # cs) = spec_quoted_runs cs"
      by (subst spec_quoted_runs.simps) (rule if_not_P)
    from False cs "2.IH"(2) have "spec_quoted_runs cs = quoted_runs cs" by blast
    with q s show ?thesis by simp
  qed
qed

lemma specQuotedStrings_plain:
  "noSmartQuotes s \<Longrightarrow> specQuotedStrings s = extractQuotedStrings s"
  by (simp add: noSmartQuotes_def list_all_iff specQuotedStrings_def extractQuotedStrings_def
      spec_quoted_runs_plain)

lemma spec_example:
  "specQuotedStrings ([0x201C] @ ustr ''hi'' @ [0x201D, 0x20, 0x27] @ ustr ''yo'' @ [0x22]) =
     [ustr ''hi'', ustr ''yo'']"
  by code_simp

lemma addResponse_existing:
  assumes "\<exists>doc \<in> set coll. trigger doc = lc trig"
  shows "addResponse lc now coll msg trig = (coll, Inl DuplicateTrigger)"
proof -
  from assms obtain d where "findOne coll (lc trig) = Some d" using findOne_Some_iff by blast
  then show ?thesis by (simp add: addResponse_def)
qed

lemma editResponse_absent:
  assumes "\<not> (\<exists>doc \<in> set coll. trigger doc = lc trig)"
  shows "editResponse lc now coll msg trig = (coll, Inl TriggerNotFound)"
proof -
  from assms have "findOne coll (lc trig) = None" by (simp add: findOne_None_iff)
  then show ?thesis by (simp add: editResponse_def)
qed

text \<open>
  Claim C6, as amended. For a message without attachment whose text has no smart
  quote character. When the existence check passes (add: no document has the
  lowercased trigger; edit: a document has it), the operation fails with
  \<open>InvalidFormat\<close> unless the text contains exactly two quoted strings, and the
  collection is unchanged. When the operation succeeds, the text contained exactly two
  quoted strings and the response written is the second of them with type \<open>text\<close>:
  add appends the new document, edit updates the first document with that trigger.
  When the existence check fails, add fails with \<open>DuplicateTrigger\<close> and edit with
  \<open>TriggerNotFound\<close>, whatever the quoted strings, and the collection is unchanged.
\<close>

theorem text_response_needs_two_quoted_strings:
  assumes "attachments msg = []" and "noSmartQuotes (content msg)"
  shows
   "(\<not> (\<exists>doc \<in> set coll. trigger doc = lc trig) \<and> length (specQuotedStrings (content msg)) \<noteq> 2 \<longrightarrow>
       addResponse lc now coll msg trig = (coll, Inl InvalidFormat)) \<and>
    ((\<exists>doc \<in> set coll. trigger doc = lc trig) \<and> length (specQuotedStrings (content msg)) \<noteq> 2 \<longrightarrow>
       editResponse lc now coll msg trig = (coll, Inl InvalidFormat)) \<and>
    (\<forall>coll' r. addResponse lc now coll msg trig = (coll', Inr r) \<longrightarrow>
       length (specQuotedStrings (content msg)) = 2 \<and>
       coll' = coll @ [\<lparr>trigger = lc trig, response = specQuotedStrings (content msg) ! 1,
                        type = Text, createdAt = now, updatedAt = None\<rparr>]) \<and>
    (\<forall>coll' r. editResponse lc now coll msg trig = (coll', Inr r) \<longrightarrow>
       length (specQuotedStrings (content msg)) = 2 \<and>
       (\<exists>pre doc post. coll = pre @ doc # post \<and> trigger doc = lc trig \<and>
          (\<forall>x \<in> set pre. trigger x \<noteq> lc trig) \<and>
          coll' = pre @ doc\<lparr>response := specQuotedStrings (content msg) ! 1, type := Text,
                               updatedAt := Some now\<rparr> # post)) \<and>
    ((\<exists>doc \<in> set coll. trigger doc = lc trig) \<longrightarrow>
       addResponse lc now coll msg trig = (coll, Inl DuplicateTrigger)) \<and>
    (\<not> (\<exists>doc \<in> set coll. trigger doc = lc trig) \<longrightarrow>
       editResponse lc now coll msg trig = (coll, Inl TriggerNotFound))"
proof -
  have same: "specQuotedStrings (content msg) = extractQuotedStrings (content msg)"
    using assms(2) by (rule specQuotedStrings_plain)
  note by_extractor = text_response_by_extractor [OF assms(1), of coll lc trig now]
  have dup: "(\<exists>doc \<in> set coll. trigger doc = lc trig) \<longrightarrow>
       addResponse lc now coll msg trig = (coll, Inl DuplicateTrigger)"
    using addResponse_existing [of coll lc trig now msg] by blast
  have absent: "\<not> (\<exists>doc \<in> set coll. trigger doc = lc trig) \<longrightarrow>
       editResponse lc now coll msg trig = (coll, Inl TriggerNotFound)"
    using editResponse_absent [of coll lc trig now msg] by blast
  from by_extractor dup absent show ?thesis
    unfolding same by (intro conjI) blast+
qed

lemma hello_only_plain: "noSmartQuotes (content addHelloOnly)"
  by code_simp

lemma plain_quotes_plain: "noSmartQuotes (content addPlainQuotes)"
  by code_simp

lemma hello_only_one_spec: "length (specQuotedStrings (content addHelloOnly)) = 1"
  by code_simp

lemma plain_quotes_second_spec: "specQuotedStrings (content addPlainQuotes) ! 1 = ustr ''yo''"
  by code_simp

lemma no_hello_in_empty: "\<not> (\<exists>doc \<in> set []. trigger doc = toLowerCaseASCII (ustr ''hello''))"
  by simp

theorem text_response_witness:
  "attachments addHelloOnly = [] \<and> noSmartQuotes (content addHelloOnly) \<and>
   attachments addPlainQuotes = [] \<and> noSmartQuotes (content addPlainQuotes) \<and>
   addResponse toLowerCaseASCII 3 [] addHelloOnly (ustr ''hello'') = ([], Inl InvalidFormat) \<and>
   editResponse toLowerCaseASCII 3 exampleDocs addHelloOnly (ustr ''hello'') =
     (exampleDocs, Inl InvalidFormat) \<and>
   addResponse toLowerCaseASCII 3 exampleDocs addHelloOnly (ustr ''hello'') =
     (exampleDocs, Inl DuplicateTrigger) \<and>
   editResponse toLowerCaseASCII 3 [] addHelloOnly (ustr ''hello'') = ([], Inl TriggerNotFound) \<and>
   fst (addResponse toLowerCaseASCII 5 [] addPlainQuotes (ustr ''hi'')) =
     [\<lparr>trigger = ustr ''hi'', response = ustr ''yo'', type = Text, createdAt = 5, updatedAt = None\<rparr>]"
proof -
  note a = text_response_needs_two_quoted_strings
    [OF hello_only_no_attachment hello_only_plain, of "[]" toLowerCaseASCII "ustr ''hello''" 3]
  note e = text_response_needs_two_quoted_strings
    [OF hello_only_no_attachment hello_only_plain, of exampleDocs toLowerCaseASCII "ustr ''hello''" 3]
  note p = text_response_needs_two_quoted_strings
    [OF plain_quotes_no_attachment plain_quotes_plain, of "[]" toLowerCaseASCII "ustr ''hi''" 5]
  from a hello_only_one_spec
  have 1: "addResponse toLowerCaseASCII 3 [] addHelloOnly (ustr ''hello'') = ([], Inl InvalidFormat)"
    by simp
  from e hello_only_one_spec hello_in_examples
  have 2: "editResponse toLowerCaseASCII 3 exampleDocs addHelloOnly (ustr ''hello'') =
     (exampleDocs, Inl InvalidFormat)"
    by simp
  from e hello_in_examples
  have 3: "addResponse toLowerCaseASCII 3 exampleDocs addHelloOnly (ustr ''hello'') =
     (exampleDocs, Inl DuplicateTrigger)"
    by blast
  from a no_hello_in_empty
  have 4: "editResponse toLowerCaseASCII 3 [] addHelloOnly (ustr ''hello'') = ([], Inl TriggerNotFound)"
    by blast
  from p add_hi_succeeds
  have "fst (addResponse toLowerCaseASCII 5 [] addPlainQuotes (ustr ''hi'')) =
     [] @ [\<lparr>trigger = toLowerCaseASCII (ustr ''hi''),
             response = specQuotedStrings (content addPlainQuotes) ! 1,
             type = Text, createdAt = 5, updatedAt = None\<rparr>]"
    by (metis fst_conv)
  then have 5: "fst (addResponse toLowerCaseASCII 5 [] addPlainQuotes (ustr ''hi'')) =
     [\<lparr>trigger = ustr ''hi'', response = ustr ''yo'', type = Text, createdAt = 5, updatedAt = None\<rparr>]"
    by (simp only: plain_quotes_second_spec lower_hi append_Nil)
  from hello_only_no_attachment hello_only_plain plain_quotes_no_attachment plain_quotes_plain
    1 2 3 4 5
  show ?thesis by blast
qed

lemma duplicate_before_format:
  "addResponse toLowerCaseASCII 9 exampleDocs addHelloOnly (ustr ''hello'') =
     (exampleDocs, Inl DuplicateTrigger)"
  by code_simp

lemma not_found_before_format:
  "editResponse toLowerCaseASCII 9 [] addHelloOnly (ustr ''hello'') = ([], Inl TriggerNotFound)"
  by code_simp

text \<open>
  Claim C6 as stated fails: the existence check comes first. With one quoted string,
  no smart quote and no attachment, an add of a trigger the collection holds fails
  with \<open>DuplicateTrigger\<close>, and an edit of a trigger it does not hold fails with
  \<open>TriggerNotFound\<close>; neither fails with \<open>InvalidFormat\<close>.
\<close>

theorem existence_check_precedes_format_check:
  "attachments addHelloOnly = [] \<and> noSmartQuotes (content addHelloOnly) \<and>
   length (specQuotedStrings (content addHelloOnly)) = 1 \<and>
   addResponse toLowerCaseASCII 9 exampleDocs addHelloOnly (ustr ''hello'') =
     (exampleDocs, Inl DuplicateTrigger) \<and>
   editResponse toLowerCaseASCII 9 [] addHelloOnly (ustr ''hello'') = ([], Inl TriggerNotFound)"
  by (intro conjI hello_only_no_attachment hello_only_plain hello_only_one_spec
      duplicate_before_format not_found_before_format)

text \<open>
  With smart quotes in the text the extractor and the specification part, by the
  defect shown for claim C3: the text of \<open>addThreeQuoted\<close> contains three quoted
  strings, the extractor returns the two in plain quotes, and the add stores the third
  string as the response. The amended claim C6 says nothing about such texts.
\<close>

lemma three_quoted_in_spec:
  "specQuotedStrings (content addThreeQuoted) = [ustr ''hi'', ustr ''yo'', ustr ''x'']"
  by code_simp

lemma two_quoted_for_extractor:
  "extractQuotedStrings (content addThreeQuoted) = [ustr ''hi'', ustr ''x'']"
  by code_simp

lemma three_quoted_add_succeeds:
  "fst (addResponse toLowerCaseASCII 0 [] addThreeQuoted (ustr ''hi'')) =
     [\<lparr>trigger = ustr ''hi'', response = ustr ''x'', type = Text, createdAt = 0, updatedAt = None\<rparr>]"
  by code_simp

section \<open>Remove\<close>

text \<open>
  \<open>removeResponse\<close> on a collection without the trigger and on one with it; the line
  of the listing determines the trigger it shows.
\<close>

lemma removeResponse_absent:
  assumes "\<not> (\<exists>doc \<in> set coll. trigger doc = lc trig)"
  shows "removeResponse lc coll trig = (coll, Inl TriggerNotFound)"
proof -
  from assms have "deleteOne coll (lc trig) = (coll, 0)" by (intro deleteOne_absent) blast
  then show ?thesis by (simp add: removeResponse_def)
qed

lemma removeResponse_present:
  assumes "\<exists>doc \<in> set coll. trigger doc = lc trig"
  shows "\<exists>pre doc post. coll = pre @ doc # post \<and> trigger doc = lc trig \<and>
    (\<forall>x \<in> set pre. trigger x \<noteq> lc trig) \<and>
    removeResponse lc coll trig = (pre @ post, Inr (ustr ''Removed: '' @ [dquote] @ trig @ [dquote]))"
proof -
  from first_occurrence [OF assms] obtain pre doc post where
    split: "coll = pre @ doc # post" "trigger doc = lc trig" "\<forall>x \<in> set pre. trigger x \<noteq> lc trig"
    by blast
  then have "deleteOne coll (lc trig) = (pre @ post, 1)" by (simp add: deleteOne_first)
  then have "removeResponse lc coll trig =
      (pre @ post, Inr (ustr ''Removed: '' @ [dquote] @ trig @ [dquote]))"
    by (simp add: removeResponse_def)
  with split show ?thesis by blast
qed

lemma removeResponse_not_found_iff:
  "snd (removeResponse lc coll trig) = Inl TriggerNotFound \<longleftrightarrow>
     \<not> (\<exists>doc \<in> set coll. trigger doc = lc trig)"
proof (cases "\<exists>doc \<in> set coll. trigger doc = lc trig")
  case True
  from removeResponse_present [of coll lc trig] True
  have "snd (removeResponse lc coll trig) \<noteq> Inl TriggerNotFound"
    by auto
  with True show ?thesis by simp
next
  case False
  from removeResponse_absent [of coll lc trig] False show ?thesis by simp
qed

lemma removeResponse_clears_unique_trigger:
  assumes "distinct (map trigger coll)"
  shows "\<forall>doc \<in> set (fst (removeResponse lc coll trig)). trigger doc \<noteq> lc trig"
proof (cases "\<exists>doc \<in> set coll. trigger doc = lc trig")
  case False
  with removeResponse_absent [of coll lc trig] show ?thesis by simp
next
  case True
  from removeResponse_present [of coll lc trig] True obtain pre doc post where
    split: "coll = pre @ doc # post" "trigger doc = lc trig" and
    res: "fst (removeResponse lc coll trig) = pre @ post"
    by auto
  from assms split have "trigger doc \<notin> trigger ` set pre" "trigger doc \<notin> trigger ` set post"
    by simp_all
  with split(2) have "\<forall>x \<in> set pre. trigger x \<noteq> lc trig" "\<forall>x \<in> set post. trigger x \<noteq> lc trig"
    by (metis imageI)+
  with res show ?thesis by auto
qed

lemma listLine_same_trigger:
  assumes "listLine d1 = listLine d2"
  shows "trigger d1 = trigger d2"
proof -
  from assms have "rev (listLine d1) = rev (listLine d2)" by simp
  then show ?thesis
    by (cases "type d1"; cases "type d2")
      (simp_all add: listLine_def type_name_def ustr_def dquote_def)
qed

text \<open>
  Claim C7, as amended. For every collection, \<open>removeResponse\<close> fails with
  \<open>TriggerNotFound\<close> exactly when no document has the lowercased trigger, and then
  returns the collection unchanged; otherwise it deletes the first document with that
  trigger, and only that one, and returns the confirmation. When the triggers of the
  collection are unique, no document with that trigger is left, and the listing built
  from the collection afterwards has no line for it.
\<close>

theorem remove_trigger_not_found:
  "(snd (removeResponse lc coll trig) = Inl TriggerNotFound \<longleftrightarrow>
      \<not> (\<exists>doc \<in> set coll. trigger doc = lc trig)) \<and>
   (snd (removeResponse lc coll trig) = Inl TriggerNotFound \<longrightarrow>
      fst (removeResponse lc coll trig) = coll) \<and>
   ((\<exists>doc \<in> set coll. trigger doc = lc trig) \<longrightarrow>
      (\<exists>pre doc post. coll = pre @ doc # post \<and> trigger doc = lc trig \<and>
         (\<forall>x \<in> set pre. trigger x \<noteq> lc trig) \<and>
         removeResponse lc coll trig =
           (pre @ post, Inr (ustr ''Removed: '' @ [dquote] @ trig @ [dquote])))) \<and>
   (distinct (map trigger coll) \<longrightarrow>
      (\<forall>doc \<in> set (fst (removeResponse lc coll trig)). trigger doc \<noteq> lc trig) \<and>
      (\<forall>doc :: document. trigger doc = lc trig \<longrightarrow>
         listLine doc \<notin> set (map listLine (fst (removeResponse lc coll trig)))))"
proof (intro conjI impI allI)
  show "snd (removeResponse lc coll trig) = Inl TriggerNotFound \<longleftrightarrow>
      \<not> (\<exists>doc \<in> set coll. trigger doc = lc trig)"
    by (rule removeResponse_not_found_iff)
next
  assume "snd (removeResponse lc coll trig) = Inl TriggerNotFound"
  then have "\<not> (\<exists>doc \<in> set coll. trigger doc = lc trig)"
    by (simp add: removeResponse_not_found_iff)
  then show "fst (removeResponse lc coll trig) = coll"
    by (simp add: removeResponse_absent)
next
  assume "\<exists>doc \<in> set coll. trigger doc = lc trig"
  then show "\<exists>pre doc post. coll = pre @ doc # post \<and> trigger doc = lc trig \<and>
         (\<forall>x \<in> set pre. trigger x \<noteq> lc trig) \<and>
         removeResponse lc coll trig =
           (pre @ post, Inr (ustr ''Removed: '' @ [dquote] @ trig @ [dquote]))"
    by (rule removeResponse_present)
next
  assume "distinct (map trigger coll)"
  then show "\<forall>doc \<in> set (fst (removeResponse lc coll trig)). trigger doc \<noteq> lc trig"
    by (rule removeResponse_clears_unique_trigger)
next
  fix doc :: document
  assume d: "distinct (map trigger coll)" and t: "trigger doc = lc trig"
  show "listLine doc \<notin> set (map listLine (fst (removeResponse lc coll trig)))"
  proof
    assume "listLine doc \<in> set (map listLine (fst (removeResponse lc coll trig)))"
    then obtain d' where "d' \<in> set (fst (removeResponse lc coll trig))" "listLine d' = listLine doc"
      by auto
    with listLine_same_trigger [of d' doc] t removeResponse_clears_unique_trigger [of coll lc trig] d
    show False by auto
  qed
qed

lemma nope_not_in_examples: "\<not> (\<exists>doc \<in> set exampleDocs. trigger doc = toLowerCaseASCII (ustr ''nope''))"
  by code_simp

lemma example_triggers_distinct: "distinct (map trigger exampleDocs)"
  by code_simp

lemma lower_Bye: "toLowerCaseASCII (ustr ''Bye'') = ustr ''bye''"
  by code_simp

lemma remove_bye_result:
  "removeResponse toLowerCaseASCII exampleDocs (ustr ''Bye'') =
     ([exampleDocs ! 0, exampleDocs ! 2], Inr (ustr ''Removed: '' @ [dquote] @ ustr ''Bye'' @ [dquote]))"
  by code_simp

theorem remove_witness:
  "removeResponse toLowerCaseASCII exampleDocs (ustr ''nope'') = (exampleDocs, Inl TriggerNotFound) \<and>
   distinct (map trigger exampleDocs) \<and>
   ustr ''bye'' \<in> set (map trigger exampleDocs) \<and>
   ustr ''bye'' \<notin> set (map trigger (fst (removeResponse toLowerCaseASCII exampleDocs (ustr ''Bye'')))) \<and>
   removeResponse toLowerCaseASCII exampleDocs (ustr ''Bye'') =
     ([exampleDocs ! 0, exampleDocs ! 2], Inr (ustr ''Removed: '' @ [dquote] @ ustr ''Bye'' @ [dquote]))"
proof -
  note n = remove_trigger_not_found [of toLowerCaseASCII exampleDocs "ustr ''nope''"]
  note b = remove_trigger_not_found [of toLowerCaseASCII exampleDocs "ustr ''Bye''"]
  from n nope_not_in_examples
  have "snd (removeResponse toLowerCaseASCII exampleDocs (ustr ''nope'')) = Inl TriggerNotFound"
    and "fst (removeResponse toLowerCaseASCII exampleDocs (ustr ''nope'')) = exampleDocs"
    by blast+
  then have 1: "removeResponse toLowerCaseASCII exampleDocs (ustr ''nope'') =
      (exampleDocs, Inl TriggerNotFound)"
    by (simp add: prod_eq_iff)
  from b example_triggers_distinct
  have "\<forall>doc \<in> set (fst (removeResponse toLowerCaseASCII exampleDocs (ustr ''Bye''))).
      trigger doc \<noteq> toLowerCaseASCII (ustr ''Bye'')"
    by blast
  then have 2: "ustr ''bye'' \<notin> set (map trigger (fst (removeResponse toLowerCaseASCII exampleDocs (ustr ''Bye''))))"
    unfolding lower_Bye by auto
  have 3: "ustr ''bye'' \<in> set (map trigger exampleDocs)" by code_simp
  from 1 2 3 example_triggers_distinct remove_bye_result show ?thesis by blast
qed

lemma remove_one_of_two:
  "removeResponse toLowerCaseASCII duplicateDocs (ustr ''hello'') =
     ([duplicateDocs ! 1], Inr (ustr ''Removed: '' @ [dquote] @ ustr ''hello'' @ [dquote]))"
  by code_simp

lemma other_still_there: "trigger (duplicateDocs ! 1) = toLowerCaseASCII (ustr ''hello'')"
  by code_simp

lemma list_before_remove:
  "listText duplicateDocs =
     ustr ''Responses:'' @ [0x0A] @ ustr ''- '' @ [dquote] @ ustr ''hello'' @ [dquote] @ ustr '' (text)'' @
     [0x0A] @ ustr ''- '' @ [dquote] @ ustr ''hello'' @ [dquote] @ ustr '' (text)''"
  by code_simp

lemma list_after_remove:
  "listText (fst (removeResponse toLowerCaseASCII duplicateDocs (ustr ''hello''))) =
     ustr ''Responses:'' @ [0x0A] @ ustr ''- '' @ [dquote] @ ustr ''hello'' @ [dquote] @ ustr '' (text)''"
  by code_simp

text \<open>
  Claim C7 as stated fails: the uniqueness of triggers is checked by \<open>addResponse\<close>
  only, not enforced by the store, and \<open>deleteOne\<close> deletes one document. In a
  collection where two documents have the trigger \<open>hello\<close>, the remove succeeds, the
  second document is left, and the listing afterwards still shows \<open>hello\<close>.
\<close>

theorem remove_leaves_duplicate_listed:
  "removeResponse toLowerCaseASCII duplicateDocs (ustr ''hello'') =
     ([duplicateDocs ! 1], Inr (ustr ''Removed: '' @ [dquote] @ ustr ''hello'' @ [dquote])) \<and>
   trigger (duplicateDocs ! 1) = toLowerCaseASCII (ustr ''hello'') \<and>
   listText (fst (removeResponse toLowerCaseASCII duplicateDocs (ustr ''hello''))) =
     ustr ''Responses:'' @ [0x0A] @ ustr ''- '' @ [dquote] @ ustr ''hello'' @ [dquote] @ ustr '' (text)''"
  by (intro conjI remove_one_of_two other_still_there list_after_remove)

section \<open>Edit\<close>

text \<open>
  Claim C8. A successful \<open>editResponse\<close> changes one document, the first with the
  lowercased trigger, and in it only \<open>response\<close>, \<open>type\<close> and \<open>updatedAt\<close>; the
  triggers and the creation dates of all documents are as before.
\<close>

theorem edit_changes_only_response_fields:
  assumes "editResponse lc now coll msg trig = (coll', Inr r)"
  shows "map trigger coll' = map trigger coll \<and> map createdAt coll' = map createdAt coll \<and>
    (\<exists>pre doc post resp ty. coll = pre @ doc # post \<and> trigger doc = lc trig \<and>
       (\<forall>x \<in> set pre. trigger x \<noteq> lc trig) \<and>
       coll' = pre @ doc\<lparr>response := resp, type := ty, updatedAt := Some now\<rparr> # post)"
proof -
  from editResponse_success [OF assms] obtain pre doc post resp ty where
    split: "coll = pre @ doc # post" "trigger doc = lc trig" "\<forall>x \<in> set pre. trigger x \<noteq> lc trig" and
    c': "coll' = pre @ doc\<lparr>response := resp, type := ty, updatedAt := Some now\<rparr> # post"
    by blast
  from split(1) c' have "map trigger coll' = map trigger coll" "map createdAt coll' = map createdAt coll"
    by simp_all
  with split c' show ?thesis by blast
qed

lemma edit_hello_succeeds:
  "editResponse toLowerCaseASCII 8 exampleDocs editHello (ustr ''hello'') =
     ([\<lparr>trigger = ustr ''hello'', response = ustr ''good day'', type = Text,
         createdAt = 1, updatedAt = Some 8\<rparr>,
       exampleDocs ! 1, exampleDocs ! 2],
      Inr (ustr ''Updated: '' @ [dquote] @ ustr ''hello'' @ [dquote, 0x20, 0x2192, 0x20] @ ustr ''text''))"
  by code_simp

lemma example_triggers: "map trigger exampleDocs = [ustr ''hello'', ustr ''bye'', ustr ''ell'']"
  by code_simp

lemma example_created: "map createdAt exampleDocs = [1, 2, 3]"
  by code_simp

theorem edit_witness:
  "editResponse toLowerCaseASCII 8 exampleDocs editHello (ustr ''hello'') =
     ([\<lparr>trigger = ustr ''hello'', response = ustr ''good day'', type = Text,
         createdAt = 1, updatedAt = Some 8\<rparr>,
       exampleDocs ! 1, exampleDocs ! 2],
      Inr (ustr ''Updated: '' @ [dquote] @ ustr ''hello'' @ [dquote, 0x20, 0x2192, 0x20] @ ustr ''text'')) \<and>
   map trigger (fst (editResponse toLowerCaseASCII 8 exampleDocs editHello (ustr ''hello''))) =
     [ustr ''hello'', ustr ''bye'', ustr ''ell''] \<and>
   map createdAt (fst (editResponse toLowerCaseASCII 8 exampleDocs editHello (ustr ''hello''))) =
     [1, 2, 3]"
proof -
  from edit_changes_only_response_fields [OF edit_hello_succeeds]
  have "map trigger [\<lparr>trigger = ustr ''hello'', response = ustr ''good day'', type = Text,
         createdAt = 1, updatedAt = Some 8\<rparr>, exampleDocs ! 1, exampleDocs ! 2] = map trigger exampleDocs"
    and "map createdAt [\<lparr>trigger = ustr ''hello'', response = ustr ''good day'', type = Text,
         createdAt = 1, updatedAt = Some 8\<rparr>, exampleDocs ! 1, exampleDocs ! 2] = map createdAt exampleDocs"
    by blast+
  then show ?thesis
    unfolding edit_hello_succeeds fst_conv example_triggers example_created
    by blast
qed

section \<open>Delivery of matched responses\<close>

text \<open>
  Every \<open>channel.send\<close> is recorded as an attempt, rejected or not; the loop over the
  matches attempts the payload of every match, in order, and delivers those whose
  call is not rejected.
\<close>

lemma attempts_send: "attempts (fst (send fails ch out)) = attempts ch @ [out]"
  by (simp add: send_def split: option.splits)

lemma delivered_send:
  "delivered (fst (send fails ch out)) =
     delivered ch @ (if fails (length (attempts ch)) = None then [out] else [])"
  by (simp add: send_def split: option.splits)

lemma attempts_sendMatches:
  "attempts (foldl (sendMatch fails) ch ms) = attempts ch @ map payload ms"
  by (induction ms arbitrary: ch) (simp_all add: sendMatch_def attempts_send)

lemma delivered_sendMatches:
  "delivered (foldl (sendMatch fails) ch ms) =
     delivered ch @
     map snd (filter (\<lambda>(k, p). fails k = None)
       (zip [length (attempts ch) ..< length (attempts ch) + length ms] (map payload ms)))"
proof (induction ms arbitrary: ch)
  case Nil
  then show ?case by simp
next
  case (Cons m ms)
  have upt: "[length (attempts ch) ..< length (attempts ch) + length (m # ms)] =
      length (attempts ch) # [Suc (length (attempts ch)) ..< Suc (length (attempts ch)) + length ms]"
    by (simp add: upt_rec)
  show ?case
    unfolding foldl_Cons Cons.IH upt
    by (simp add: sendMatch_def attempts_send delivered_send)
qed

text \<open>
  Claim C9. For a plain-text message (of a user, not a bot) and every pattern of
  rejected sends: the handler attempts one send per match, for all matches in order,
  whichever of them are rejected; it attempts nothing else, so no error report goes to
  the chat; the sends that were accepted are delivered; the collection is unchanged.
\<close>

theorem delivery_failures_are_isolated:
  assumes "\<not> author_bot msg" and "classify (normalizeText (content msg)) = PlainText"
  shows "responses (messageCreate lc fails now w msg) = responses w \<and>
    attempts (chan (messageCreate lc fails now w msg)) =
      attempts (chan w) @ map payload (checkMessages lc (responses w) (normalizeText (content msg))) \<and>
    delivered (chan (messageCreate lc fails now w msg)) =
      delivered (chan w) @
      map snd (filter (\<lambda>(k, p). fails k = None)
        (zip [length (attempts (chan w)) ..<
              length (attempts (chan w)) +
              length (checkMessages lc (responses w) (normalizeText (content msg)))]
           (map payload (checkMessages lc (responses w) (normalizeText (content msg))))))"
  using assms
  by (simp add: messageCreate_def tryBody_def attempts_sendMatches delivered_sendMatches)

lemma plain_not_bot: "\<not> author_bot plainMessage"
  by (simp add: plainMessage_def)

lemma plain_is_plain: "classify (normalizeText (content plainMessage)) = PlainText"
  by code_simp

lemma plain_payloads:
  "map payload (checkMessages toLowerCaseASCII (responses exampleWorld) (normalizeText (content plainMessage))) =
     [TextMessage (ustr ''hi there''), FilesMessage [ustr ''http://x/y.png'']]"
  by code_simp

lemma example_no_attempts: "attempts (chan exampleWorld) = []"
  by (simp add: exampleWorld_def)

lemma delivered_example:
  "delivered (chan (messageCreate toLowerCaseASCII firstFails 0 exampleWorld plainMessage)) =
     [FilesMessage [ustr ''http://x/y.png'']]"
  by code_simp

theorem delivery_witness:
  "\<not> author_bot plainMessage \<and> classify (normalizeText (content plainMessage)) = PlainText \<and>
   firstFails 0 = Some (ustr ''Missing Permissions'') \<and>
   attempts (chan (messageCreate toLowerCaseASCII firstFails 0 exampleWorld plainMessage)) =
     [TextMessage (ustr ''hi there''), FilesMessage [ustr ''http://x/y.png'']] \<and>
   delivered (chan (messageCreate toLowerCaseASCII firstFails 0 exampleWorld plainMessage)) =
     [FilesMessage [ustr ''http://x/y.png'']]"
proof -
  from delivery_failures_are_isolated [OF plain_not_bot plain_is_plain, of toLowerCaseASCII firstFails 0 exampleWorld]
  have "attempts (chan (messageCreate toLowerCaseASCII firstFails 0 exampleWorld plainMessage)) =
      attempts (chan exampleWorld) @
      map payload (checkMessages toLowerCaseASCII (responses exampleWorld) (normalizeText (content plainMessage)))"
    by blast
  then have "attempts (chan (messageCreate toLowerCaseASCII firstFails 0 exampleWorld plainMessage)) =
     [TextMessage (ustr ''hi there''), FilesMessage [ustr ''http://x/y.png'']]"
    unfolding plain_payloads example_no_attempts by simp
  moreover have "firstFails 0 = Some (ustr ''Missing Permissions'')" by (simp add: firstFails_def)
  ultimately show ?thesis using plain_not_bot plain_is_plain delivered_example by blast
qed

section \<open>What the handler leaves in the collection\<close>

text \<open>
  The collection after a message is the collection after the operation the message
  selects; sends do not touch it. Add leaves the collection as it was or appends one
  document with the lowercased trigger, which no document had; edit keeps every
  trigger; remove keeps a part of the collection. So the handler keeps the triggers
  unique, and keeps them non-empty when lowercasing does.
\<close>

lemma responses_sendTo: "responses (fst (sendTo fails w out)) = responses w"
  by (simp add: sendTo_def)

lemma firstQuoted_Inr: "firstQuoted s = Inr trig \<Longrightarrow> trig \<noteq> []"
  by (auto simp: firstQuoted_def split: list.splits if_splits)

lemma firstQuoted_Inl: "firstQuoted s = Inl e \<Longrightarrow> e = InvalidFormat"
  by (auto simp: firstQuoted_def split: list.splits if_splits)

lemma firstQuoted_rejects_iff:
  "firstQuoted s = Inl InvalidFormat \<longleftrightarrow>
     extractQuotedStrings s = [] \<or> hd (extractQuotedStrings s) = []"
  by (auto simp: firstQuoted_def split: list.splits)

lemma responses_after_operation:
  "responses (fst (case res of
       (coll, Inl e) \<Rightarrow> (w\<lparr>responses := coll\<rparr>, Inl e)
     | (coll, Inr result) \<Rightarrow> sendTo fails (w\<lparr>responses := coll\<rparr>) (TextMessage result))) = fst res"
proof (cases res)
  case (Pair coll outcome)
  then show ?thesis by (cases outcome) (simp_all add: sendTo_def)
qed

lemma responses_tryBody:
  "responses (fst (tryBody lc fails now w msg s)) =
     (case classify s of
        CmdAdd \<Rightarrow>
          (case firstQuoted s of
             Inl e \<Rightarrow> responses w
           | Inr trig \<Rightarrow> fst (addResponse lc now (responses w) msg trig))
      | CmdRemove \<Rightarrow>
          (case firstQuoted s of
             Inl e \<Rightarrow> responses w
           | Inr trig \<Rightarrow> fst (removeResponse lc (responses w) trig))
      | CmdEdit \<Rightarrow>
          (case firstQuoted s of
             Inl e \<Rightarrow> responses w
           | Inr trig \<Rightarrow> fst (editResponse lc now (responses w) msg trig))
      | _ \<Rightarrow> responses w)"
proof (cases "classify s")
  case CmdHelp
  then show ?thesis by (simp add: tryBody_def responses_sendTo)
next
  case CmdList
  then show ?thesis by (simp add: tryBody_def responses_sendTo)
next
  case CmdAdd
  then show ?thesis
    by (cases "firstQuoted s") (simp_all add: tryBody_def responses_after_operation)
next
  case CmdRemove
  then show ?thesis
    by (cases "firstQuoted s") (simp_all add: tryBody_def responses_after_operation)
next
  case CmdEdit
  then show ?thesis
    by (cases "firstQuoted s") (simp_all add: tryBody_def responses_after_operation)
next
  case PlainText
  then show ?thesis by (simp add: tryBody_def)
qed

lemma responses_messageCreate:
  "responses (messageCreate lc fails now w msg) =
     (if author_bot msg then responses w
      else responses (fst (tryBody lc fails now w msg (normalizeText (content msg)))))"
proof (cases "tryBody lc fails now w msg (normalizeText (content msg))")
  case (Pair w' outcome)
  then show ?thesis
    by (cases outcome) (simp_all add: messageCreate_def responses_sendTo)
qed

lemma addResponse_store:
  "fst (addResponse lc now coll msg trig) = coll \<or>
   (\<exists>doc. fst (addResponse lc now coll msg trig) = coll @ [doc] \<and> trigger doc = lc trig \<and>
      (\<forall>x \<in> set coll. trigger x \<noteq> lc trig))"
proof (cases "snd (addResponse lc now coll msg trig)")
  case (Inl e)
  then show ?thesis by (simp add: addResponse_failure_keeps_store)
next
  case (Inr r)
  then have "addResponse lc now coll msg trig = (fst (addResponse lc now coll msg trig), Inr r)"
    by (simp add: prod_eq_iff)
  from addResponse_success [OF this] show ?thesis
    by (auto simp: findOne_None_iff)
qed

lemma editResponse_store:
  "map trigger (fst (editResponse lc now coll msg trig)) = map trigger coll"
proof (cases "snd (editResponse lc now coll msg trig)")
  case (Inl e)
  then have "fst (editResponse lc now coll msg trig) = coll"
    by (auto simp: editResponse_def split: option.splits sum.splits)
  then show ?thesis by simp
next
  case (Inr r)
  then have "editResponse lc now coll msg trig = (fst (editResponse lc now coll msg trig), Inr r)"
    by (simp add: prod_eq_iff)
  from editResponse_success [OF this] show ?thesis by auto
qed

lemma removeResponse_store:
  "set (fst (removeResponse lc coll trig)) \<subseteq> set coll \<and>
   (distinct (map trigger coll) \<longrightarrow> distinct (map trigger (fst (removeResponse lc coll trig))))"
proof (cases "\<exists>doc \<in> set coll. trigger doc = lc trig")
  case False
  with removeResponse_absent [of coll lc trig] show ?thesis by simp
next
  case True
  with removeResponse_present [of coll lc trig] obtain pre doc post where
    "coll = pre @ doc # post" "fst (removeResponse lc coll trig) = pre @ post"
    by auto
  then show ?thesis by auto
qed

lemma messageCreate_keeps_unique:
  assumes "distinct (map trigger (responses w))"
  shows "distinct (map trigger (responses (messageCreate lc fails now w msg)))"
proof -
  have add: "distinct (map trigger (fst (addResponse lc now (responses w) msg trig)))" for trig
  proof -
    from addResponse_store [of lc now "responses w" msg trig]
    consider "fst (addResponse lc now (responses w) msg trig) = responses w"
      | doc where "fst (addResponse lc now (responses w) msg trig) = responses w @ [doc]"
          "trigger doc = lc trig" "\<forall>x \<in> set (responses w). trigger x \<noteq> lc trig"
      by blast
    then show ?thesis
    proof cases
      case 1
      with assms show ?thesis by simp
    next
      case 2
      from 2(2,3) have "trigger doc \<notin> set (map trigger (responses w))" by auto
      with 2(1) assms show ?thesis by simp
    qed
  qed
  have edit: "distinct (map trigger (fst (editResponse lc now (responses w) msg trig)))" for trig
    using assms by (simp add: editResponse_store)
  have remove: "distinct (map trigger (fst (removeResponse lc (responses w) trig)))" for trig
    using removeResponse_store [of lc "responses w" trig] assms by blast
  show ?thesis
    unfolding responses_messageCreate responses_tryBody
    using assms add edit remove by (simp split: command.splits sum.splits)
qed

lemma messageCreate_keeps_nonempty:
  assumes lc: "\<forall>s. s \<noteq> [] \<longrightarrow> lc s \<noteq> []"
    and inv: "\<forall>doc \<in> set (responses w). trigger doc \<noteq> []"
  shows "\<forall>doc \<in> set (responses (messageCreate lc fails now w msg)). trigger doc \<noteq> []"
proof -
  have add: "\<forall>doc \<in> set (fst (addResponse lc now (responses w) msg trig)). trigger doc \<noteq> []"
    if "trig \<noteq> []" for trig
    using addResponse_store [of lc now "responses w" msg trig] inv lc that by auto
  have edit: "\<forall>doc \<in> set (fst (editResponse lc now (responses w) msg trig)). trigger doc \<noteq> []" for trig
  proof -
    have "set (map trigger (fst (editResponse lc now (responses w) msg trig))) =
        set (map trigger (responses w))"
      by (simp only: editResponse_store)
    with inv show ?thesis by (metis (no_types, lifting) image_iff list.set_map)
  qed
  have remove: "\<forall>doc \<in> set (fst (removeResponse lc (responses w) trig)). trigger doc \<noteq> []" for trig
    using removeResponse_store [of lc "responses w" trig] inv by blast
  show ?thesis
    unfolding responses_messageCreate responses_tryBody
    using inv add edit remove by (auto split: command.splits sum.splits dest: firstQuoted_Inr)
qed

lemma add_command_store:
  assumes lc: "\<forall>s. s \<noteq> [] \<longrightarrow> lc s \<noteq> []"
    and add: "classify (normalizeText (content msg)) = CmdAdd"
  shows "responses (messageCreate lc fails now w msg) = responses w \<or>
    (\<exists>doc. responses (messageCreate lc fails now w msg) = responses w @ [doc] \<and> trigger doc \<noteq> [])"
proof (cases "author_bot msg")
  case True
  then show ?thesis by (simp add: responses_messageCreate)
next
  case False
  show ?thesis
  proof (cases "firstQuoted (normalizeText (content msg))")
    case (Inl e)
    with False add show ?thesis by (simp add: responses_messageCreate responses_tryBody)
  next
    case (Inr trig)
    then have "lc trig \<noteq> []" using lc firstQuoted_Inr by blast
    moreover from False add Inr have "responses (messageCreate lc fails now w msg) =
        fst (addResponse lc now (responses w) msg trig)"
      by (simp add: responses_messageCreate responses_tryBody)
    ultimately show ?thesis using addResponse_store [of lc now "responses w" msg trig] by auto
  qed
qed

lemma add_command_rejected:
  assumes "\<not> author_bot msg" and "classify (normalizeText (content msg)) = CmdAdd"
    and "firstQuoted (normalizeText (content msg)) = Inl InvalidFormat"
  shows "responses (messageCreate lc fails now w msg) = responses w \<and>
    attempts (chan (messageCreate lc fails now w msg)) =
      attempts (chan w) @ [TextMessage (ustr ''Error: Invalid format'')]"
  using assms
  by (simp add: messageCreate_def tryBody_def sendTo_def attempts_send error_message_def ustr_def)

text \<open>
  Claim C10. The case mapping is taken to send no non-empty string to the empty
  string, as \<open>toLowerCase\<close> does. Every run the regular expression captures is
  non-empty. The handler rejects the command exactly when nothing was extracted or the
  first extracted string, after normalization, is empty; an add command rejected so
  leaves the collection as it was and is answered with \<open>Error: Invalid format\<close>. An add
  command stores nothing or appends one document whose trigger is not empty. Hence
  no message puts an empty trigger into a collection that has none.
\<close>

theorem add_never_stores_empty_trigger:
  assumes "\<forall>s. s \<noteq> [] \<longrightarrow> lc s \<noteq> []"
  shows
   "(\<forall>run \<in> set (quoted_runs (normalizeText (content msg))). run \<noteq> []) \<and>
    (firstQuoted (normalizeText (content msg)) = Inl InvalidFormat \<longleftrightarrow>
       extractQuotedStrings (normalizeText (content msg)) = [] \<or>
       hd (extractQuotedStrings (normalizeText (content msg))) = []) \<and>
    (\<not> author_bot msg \<and> classify (normalizeText (content msg)) = CmdAdd \<and>
     firstQuoted (normalizeText (content msg)) = Inl InvalidFormat \<longrightarrow>
       responses (messageCreate lc fails now w msg) = responses w \<and>
       attempts (chan (messageCreate lc fails now w msg)) =
         attempts (chan w) @ [TextMessage (ustr ''Error: Invalid format'')]) \<and>
    (classify (normalizeText (content msg)) = CmdAdd \<longrightarrow>
       responses (messageCreate lc fails now w msg) = responses w \<or>
       (\<exists>doc. responses (messageCreate lc fails now w msg) = responses w @ [doc] \<and>
          trigger doc \<noteq> [])) \<and>
    ((\<forall>doc \<in> set (responses w). trigger doc \<noteq> []) \<longrightarrow>
       (\<forall>doc \<in> set (responses (messageCreate lc fails now w msg)). trigger doc \<noteq> []))"
proof (intro conjI impI)
  show "\<forall>run \<in> set (quoted_runs (normalizeText (content msg))). run \<noteq> []"
    using quoted_runs_nonempty by blast
next
  show "firstQuoted (normalizeText (content msg)) = Inl InvalidFormat \<longleftrightarrow>
       extractQuotedStrings (normalizeText (content msg)) = [] \<or>
       hd (extractQuotedStrings (normalizeText (content msg))) = []"
    by (rule firstQuoted_rejects_iff)
next
  assume "\<not> author_bot msg \<and> classify (normalizeText (content msg)) = CmdAdd \<and>
     firstQuoted (normalizeText (content msg)) = Inl InvalidFormat"
  then show "responses (messageCreate lc fails now w msg) = responses w"
    and "attempts (chan (messageCreate lc fails now w msg)) =
         attempts (chan w) @ [TextMessage (ustr ''Error: Invalid format'')]"
    using add_command_rejected [of msg lc fails now w] by blast+
next
  assume "classify (normalizeText (content msg)) = CmdAdd"
  with assms show "responses (messageCreate lc fails now w msg) = responses w \<or>
       (\<exists>doc. responses (messageCreate lc fails now w msg) = responses w @ [doc] \<and>
          trigger doc \<noteq> [])"
    by (rule add_command_store)
next
  assume "\<forall>doc \<in> set (responses w). trigger doc \<noteq> []"
  with assms show "\<forall>doc \<in> set (responses (messageCreate lc fails now w msg)). trigger doc \<noteq> []"
    by (rule messageCreate_keeps_nonempty)
qed

lemma lower_keeps_nonempty: "\<forall>s. s \<noteq> [] \<longrightarrow> toLowerCaseASCII s \<noteq> []"
  by (simp add: toLowerCaseASCII_def)

lemma blank_not_bot: "\<not> author_bot addBlankTrigger"
  by (simp add: addBlankTrigger_def)

lemma blank_is_add: "classify (normalizeText (content addBlankTrigger)) = CmdAdd"
  by code_simp

lemma blank_runs: "quoted_runs (normalizeText (content addBlankTrigger)) = [ustr '' '', ustr ''yo'']"
  by code_simp

lemma blank_extracted:
  "extractQuotedStrings (normalizeText (content addBlankTrigger)) = [[], ustr ''yo'']"
  by code_simp

lemma example_triggers_nonempty: "\<forall>doc \<in> set (responses exampleWorld). trigger doc \<noteq> []"
  by code_simp

theorem add_never_stores_empty_trigger_witness:
  "quoted_runs (normalizeText (content addBlankTrigger)) = [ustr '' '', ustr ''yo''] \<and>
   extractQuotedStrings (normalizeText (content addBlankTrigger)) = [[], ustr ''yo''] \<and>
   responses (messageCreate toLowerCaseASCII (\<lambda>k. None) 0 emptyWorld addBlankTrigger) = [] \<and>
   attempts (chan (messageCreate toLowerCaseASCII (\<lambda>k. None) 0 emptyWorld addBlankTrigger)) =
     [TextMessage (ustr ''Error: Invalid format'')] \<and>
   list_all (\<lambda>doc. trigger doc \<noteq> [])
     (responses (messageCreate toLowerCaseASCII (\<lambda>k. None) 5 exampleWorld addPlainQuotes))"
proof -
  note b = add_never_stores_empty_trigger
    [OF lower_keeps_nonempty, of addBlankTrigger "\<lambda>k. None" 0 emptyWorld]
  note p = add_never_stores_empty_trigger
    [OF lower_keeps_nonempty, of addPlainQuotes "\<lambda>k. None" 5 exampleWorld]
  have "hd (extractQuotedStrings (normalizeText (content addBlankTrigger))) = []"
    unfolding blank_extracted by simp
  with b have rejected: "firstQuoted (normalizeText (content addBlankTrigger)) = Inl InvalidFormat"
    by blast
  with b blank_not_bot blank_is_add
  have "responses (messageCreate toLowerCaseASCII (\<lambda>k. None) 0 emptyWorld addBlankTrigger) =
      responses emptyWorld"
    and "attempts (chan (messageCreate toLowerCaseASCII (\<lambda>k. None) 0 emptyWorld addBlankTrigger)) =
      attempts (chan emptyWorld) @ [TextMessage (ustr ''Error: Invalid format'')]"
    by blast+
  then have 1: "responses (messageCreate toLowerCaseASCII (\<lambda>k. None) 0 emptyWorld addBlankTrigger) = []"
    and 2: "attempts (chan (messageCreate toLowerCaseASCII (\<lambda>k. None) 0 emptyWorld addBlankTrigger)) =
      [TextMessage (ustr ''Error: Invalid format'')]"
    by (simp_all add: emptyWorld_def)
  from p example_triggers_nonempty
  have "\<forall>doc \<in> set (responses (messageCreate toLowerCaseASCII (\<lambda>k. None) 5 exampleWorld addPlainQuotes)).
      trigger doc \<noteq> []"
    by blast
  then have 3: "list_all (\<lambda>doc. trigger doc \<noteq> [])
     (responses (messageCreate toLowerCaseASCII (\<lambda>k. None) 5 exampleWorld addPlainQuotes))"
    by (simp add: list_all_iff)
  from blank_runs blank_extracted 1 2 3 show ?thesis by blast
qed


end
